theory Spec2Isabelle
  imports Main "HOL-Library.Word" "HOL-Library.Sublist" "HOL-Library.Char_ord"
    "HOL-Library.List_Lexorder"
begin

unbundle bit_operations_syntax

section \<open>Python values used by the converter\<close>

text \<open>
  A Python \<open>str\<close> is modelled as a \<open>string\<close>: a list of characters with code points
  below 256. Exceptions are values of type \<open>error\<close>; a call that can raise returns
  \<open>error + 'a\<close>, and a call that also touches the file system, the network or standard
  output takes the \<open>world\<close> and returns the new one.
\<close>

datatype error =
    SystemExit int
  | KeyError string
  | IndexError
  | AttributeError
  | IsADirectoryError
  | NotADirectoryError
  | FileNotFoundError
  | FileExistsError

text \<open>
  A parsed page (BeautifulSoup): text nodes and tags. The attribute dictionary of a tag is
  an association list with one entry for each attribute name, looked up with \<open>map_of\<close>.
\<close>

datatype node =
    Text string
  | Tag string "(string \<times> string) list" "node list"

text \<open>
  The library calls whose code is not part of the repository are parameters of the model:
  the HTTP client (\<open>requests.get\<close>, giving status code and body), \<open>urlparse(u).path\<close>,
  \<open>requests.compat.urljoin\<close>, the HTML parser, \<open>Tag.prettify\<close>, the serialisation that
  \<open>print(tag)\<close> shows, and \<open>re.sub\<close> with the pattern that \<open>main\<close> builds from the output
  directory (\<open>re_sub_root root s\<close> is \<open>re.sub(f'^{root}/', '', s)\<close>).
\<close>

record lib =
  http_get :: "string \<Rightarrow> int \<times> string"
  urlparse_path :: "string \<Rightarrow> string"
  urljoin :: "string \<Rightarrow> string \<Rightarrow> string"
  parse_html :: "string \<Rightarrow> node"
  prettify :: "node \<Rightarrow> string"
  tag_repr :: "node \<Rightarrow> string"
  re_sub_root :: "string \<Rightarrow> string \<Rightarrow> string"

text \<open>
  The world: the regular files by path, each with the characters stored in it; the
  directories that exist; the log of HTTP requests sent; and the lines printed on standard
  output. A path names a file or directory as the string it is, up to trailing slashes:
  components \<open>.\<close> and \<open>..\<close>, repeated slashes inside a path and symbolic links are not
  resolved, and permissions are not modelled. The current directory and the root directory
  always exist.
\<close>

record world =
  files :: "string \<rightharpoonup> string"
  dirs :: "string set"
  requests :: "string list"
  stdout :: "string list"

subsection \<open>hashlib.sha256 of the UTF-8 encoding (FIPS 180-4)\<close>

definition utf8_encode :: "string \<Rightarrow> 8 word list" where
  "utf8_encode s = concat (map (\<lambda>c. let n = (of_char c :: nat) in
       if n < 128 then [of_nat n]
       else [of_nat (192 + n div 64), of_nat (128 + n mod 64)]) s)"

definition rotr :: "nat \<Rightarrow> 32 word \<Rightarrow> 32 word" where
  "rotr n x = drop_bit n x OR push_bit (32 - n) x"

definition Ch :: "32 word \<Rightarrow> 32 word \<Rightarrow> 32 word \<Rightarrow> 32 word" where
  "Ch x y z = (x AND y) XOR (NOT x AND z)"

definition Maj :: "32 word \<Rightarrow> 32 word \<Rightarrow> 32 word \<Rightarrow> 32 word" where
  "Maj x y z = (x AND y) XOR (x AND z) XOR (y AND z)"

definition Sigma0 :: "32 word \<Rightarrow> 32 word" where
  "Sigma0 x = rotr 2 x XOR rotr 13 x XOR rotr 22 x"

definition Sigma1 :: "32 word \<Rightarrow> 32 word" where
  "Sigma1 x = rotr 6 x XOR rotr 11 x XOR rotr 25 x"

definition sigma0 :: "32 word \<Rightarrow> 32 word" where
  "sigma0 x = rotr 7 x XOR rotr 18 x XOR drop_bit 3 x"

definition sigma1 :: "32 word \<Rightarrow> 32 word" where
  "sigma1 x = rotr 17 x XOR rotr 19 x XOR drop_bit 10 x"

text \<open>The round constants and the initial hash value, as decimal numerals.\<close>

definition K256 :: "32 word list" where
  "K256 = [
    1116352408, 1899447441, 3049323471, 3921009573, 961987163, 1508970993, 2453635748, 2870763221,
    3624381080, 310598401, 607225278, 1426881987, 1925078388, 2162078206, 2614888103, 3248222580,
    3835390401, 4022224774, 264347078, 604807628, 770255983, 1249150122, 1555081692, 1996064986,
    2554220882, 2821834349, 2952996808, 3210313671, 3336571891, 3584528711, 113926993, 338241895,
    666307205, 773529912, 1294757372, 1396182291, 1695183700, 1986661051, 2177026350, 2456956037,
    2730485921, 2820302411, 3259730800, 3345764771, 3516065817, 3600352804, 4094571909, 275423344,
    430227734, 506948616, 659060556, 883997877, 958139571, 1322822218, 1537002063, 1747873779,
    1955562222, 2024104815, 2227730452, 2361852424, 2428436474, 2756734187, 3204031479, 3329325298]"

type_synonym sha_state =
  "32 word \<times> 32 word \<times> 32 word \<times> 32 word \<times> 32 word \<times> 32 word \<times> 32 word \<times> 32 word"

definition H256 :: sha_state where
  "H256 = (1779033703, 3144134277, 1013904242, 2773480762,
           1359893119, 2600822924, 528734635, 1541459225)"

definition be64 :: "nat \<Rightarrow> 8 word list" where
  "be64 n = map (\<lambda>i. ucast (drop_bit (8 * i) (of_nat n :: 64 word))) [7, 6, 5, 4, 3, 2, 1, 0]"

definition sha_pad :: "8 word list \<Rightarrow> 8 word list" where
  "sha_pad m = m @ [0x80] @ replicate ((119 - length m mod 64) mod 64) 0 @ be64 (8 * length m)"

function blocks64 :: "8 word list \<Rightarrow> 8 word list list" where
  "blocks64 bs = (if bs = [] then [] else take 64 bs # blocks64 (drop 64 bs))"
  by pat_completeness auto
termination
  by (relation "measure length") auto

declare blocks64.simps [simp del]

fun be32s :: "8 word list \<Rightarrow> 32 word list" where
  "be32s (a # b # c # d # r) =
     (push_bit 24 (ucast a) OR push_bit 16 (ucast b) OR push_bit 8 (ucast c) OR ucast d) # be32s r"
| "be32s _ = []"

primrec schedule :: "nat \<Rightarrow> 32 word list \<Rightarrow> 32 word list" where
  "schedule 0 w = w"
| "schedule (Suc n) w =
     schedule n (w @ [sigma1 (w ! (length w - 2)) + w ! (length w - 7)
                      + sigma0 (w ! (length w - 15)) + w ! (length w - 16)])"

fun sha_round :: "sha_state \<Rightarrow> 32 word \<times> 32 word \<Rightarrow> sha_state" where
  "sha_round (a, b, c, d, e, f, g, h) (k, w) =
     (let t1 = h + Sigma1 e + Ch e f g + k + w;
          t2 = Sigma0 a + Maj a b c
      in (t1 + t2, a, b, c, d + t1, e, f, g))"

fun sha_add :: "sha_state \<Rightarrow> sha_state \<Rightarrow> sha_state" where
  "sha_add (a, b, c, d, e, f, g, h) (a', b', c', d', e', f', g', h') =
     (a + a', b + b', c + c', d + d', e + e', f + f', g + g', h + h')"

definition sha_block :: "sha_state \<Rightarrow> 8 word list \<Rightarrow> sha_state" where
  "sha_block st blk = sha_add st (foldl sha_round st (zip K256 (schedule 48 (be32s blk))))"

definition hexdigits :: "char set" where
  "hexdigits = set ''0123456789abcdef''"

definition hex_digit :: "nat \<Rightarrow> char" where
  "hex_digit n = ''0123456789abcdef'' ! n"

definition hex32 :: "32 word \<Rightarrow> string" where
  "hex32 w = map (\<lambda>i. hex_digit (unat (drop_bit (4 * i) w AND 15))) [7, 6, 5, 4, 3, 2, 1, 0]"

fun sha_hex :: "sha_state \<Rightarrow> string" where
  "sha_hex (a, b, c, d, e, f, g, h) =
     hex32 a @ hex32 b @ hex32 c @ hex32 d @ hex32 e @ hex32 f @ hex32 g @ hex32 h"

definition sha256_hexdigest :: "string \<Rightarrow> string" where
  "sha256_hexdigest s = sha_hex (foldl sha_block H256 (blocks64 (sha_pad (utf8_encode s))))"

subsection \<open>posixpath.join, posixpath.splitext, os.path.basename, str methods\<close>

definition path_join2 :: "string \<Rightarrow> string \<Rightarrow> string" where
  "path_join2 a b =
     (if b \<noteq> [] \<and> hd b = CHR ''/'' then b
      else if a = [] \<or> last a = CHR ''/'' then a @ b
      else a @ ''/'' @ b)"

definition path_join :: "string \<Rightarrow> string list \<Rightarrow> string" where
  "path_join a ps = foldl path_join2 a ps"

definition rfind :: "char \<Rightarrow> string \<Rightarrow> int" where
  "rfind c s =
     (if c \<in> set s then int (length s) - 1 - int (length (takeWhile (\<lambda>x. x \<noteq> c) (rev s)))
      else - 1)"

definition splitext :: "string \<Rightarrow> string \<times> string" where
  "splitext p =
     (let sepIndex = rfind CHR ''/'' p; dotIndex = rfind CHR ''.'' p
      in if dotIndex > sepIndex \<and>
            list_ex (\<lambda>c. c \<noteq> CHR ''.'') (take (nat (dotIndex - sepIndex - 1)) (drop (nat (sepIndex + 1)) p))
         then (take (nat dotIndex) p, drop (nat dotIndex) p)
         else (p, []))"

definition basename :: "string \<Rightarrow> string" where
  "basename p = drop (nat (rfind CHR ''/'' p + 1)) p"

definition rstrip_slash :: "string \<Rightarrow> string" where
  "rstrip_slash s = rev (dropWhile (\<lambda>c. c = CHR ''/'') (rev s))"

fun contains :: "string \<Rightarrow> string \<Rightarrow> bool" where
  "contains sub [] = (sub = [])"
| "contains sub (c # cs) = (prefix sub (c # cs) \<or> contains sub cs)"

function show_nat :: "nat \<Rightarrow> string" where
  "show_nat n = (if n < 10 then [''0123456789'' ! n] else show_nat (n div 10) @ [''0123456789'' ! (n mod 10)])"
  by pat_completeness auto
termination
  by (relation "measure id") auto

declare show_nat.simps [simp del]

definition show_int :: "int \<Rightarrow> string" where
  "show_int i = (if i < 0 then CHR ''-'' # show_nat (nat (- i)) else show_nat (nat i))"

section \<open>The file system\<close>

definition all_slashes :: "string \<Rightarrow> bool" where
  "all_slashes p = (p \<noteq> [] \<and> list_all (\<lambda>c. c = CHR ''/'') p)"

text \<open>\<open>posixpath.split\<close>: the directory part, without its trailing slashes, and the last component.\<close>

definition posix_split :: "string \<Rightarrow> string \<times> string" where
  "posix_split p =
     (let i = nat (rfind CHR ''/'' p + 1); head = take i p; tail = drop i p
      in (if head \<noteq> [] \<and> \<not> all_slashes head then rstrip_slash head else head, tail))"

definition is_file :: "string \<Rightarrow> world \<Rightarrow> bool" where
  "is_file p w = (p \<in> dom (files w))"

definition is_dir :: "string \<Rightarrow> world \<Rightarrow> bool" where
  "is_dir p w = (all_slashes p \<or> (p \<noteq> [] \<and> rstrip_slash p \<in> dirs w))"

text \<open>\<open>os.path.exists\<close>.\<close>

definition path_exists :: "string \<Rightarrow> world \<Rightarrow> bool" where
  "path_exists p w = (is_file p w \<or> is_dir p w)"

text \<open>
  What the operating system answers when an entry \<open>p\<close> is to be created and the directory
  part of \<open>p\<close> is missing or is a regular file. A path without a directory part lies in
  the current directory.
\<close>

definition parent_error :: "string \<Rightarrow> world \<Rightarrow> error option" where
  "parent_error p w =
     (let d = fst (posix_split p)
      in if d = [] \<or> is_dir d w then None
         else if is_file d w then Some NotADirectoryError
         else Some FileNotFoundError)"

text \<open>The error of \<open>open(p, 'w')\<close>, if any.\<close>

definition open_error :: "string \<Rightarrow> world \<Rightarrow> error option" where
  "open_error p w =
     (if p = [] then Some FileNotFoundError
      else if last p = CHR ''/'' \<or> is_dir p w then Some IsADirectoryError
      else parent_error p w)"

text \<open>The characters of \<open>p\<close> become \<open>txt\<close>: the effect of writing to a file that is open.\<close>

definition store_file :: "string \<Rightarrow> string \<Rightarrow> world \<Rightarrow> world" where
  "store_file p txt w = w\<lparr>files := (files w)(p \<mapsto> txt)\<rparr>"

text \<open>
  \<open>with open(p, 'w') as f: f.write(txt)\<close>, in text or binary mode. Opening fails when \<open>p\<close>
  is a directory or its directory part is missing. Nothing is translated on writing (the
  line separator of the platform is the newline character).
\<close>

definition write_file :: "string \<Rightarrow> string \<Rightarrow> world \<Rightarrow> (error + unit) \<times> world" where
  "write_file p txt w =
     (case open_error p w of
        Some e \<Rightarrow> (Inl e, w)
      | None \<Rightarrow> (Inr (), store_file p txt w))"

text \<open>
  Reading in text mode (\<open>open(p, 'rt').read()\<close>) translates the line endings: a carriage
  return, with the newline that may follow it, is read as one newline. \<open>cr\<close> says that
  the character before was a carriage return.
\<close>

fun read_newlines :: "bool \<Rightarrow> string \<Rightarrow> string" where
  "read_newlines cr [] = []"
| "read_newlines cr (c # cs) =
     (if c = CHR 0x0D then CHR 0x0A # read_newlines True cs
      else if c = CHR 0x0A \<and> cr then read_newlines False cs
      else c # read_newlines False cs)"

definition universal_newlines :: "string \<Rightarrow> string" where
  "universal_newlines s = read_newlines False s"

text \<open>
  The last step of \<open>os.makedirs(name, exist_ok=True)\<close>: \<open>mkdir(name)\<close>, where an error is
  passed over when \<open>name\<close> is a directory afterwards.
\<close>

definition mkdir_exist_ok :: "string \<Rightarrow> world \<Rightarrow> (error + unit) \<times> world" where
  "mkdir_exist_ok name w =
     (if name = [] then (Inl FileNotFoundError, w)
      else if is_dir name w then (Inr (), w)
      else if is_file (rstrip_slash name) w then (Inl FileExistsError, w)
      else (case parent_error (rstrip_slash name) w of
              Some e \<Rightarrow> (Inl e, w)
            | None \<Rightarrow> (Inr (), w\<lparr>dirs := insert (rstrip_slash name) (dirs w)\<rparr>)))"

text \<open>The \<open>head, tail\<close> that \<open>os.makedirs\<close> computes: a trailing slash is split off first.\<close>

definition makedirs_split :: "string \<Rightarrow> string \<times> string" where
  "makedirs_split name =
     (case posix_split name of
        (head, tail) \<Rightarrow> if tail = [] then posix_split head else (head, tail))"

text \<open>
  \<open>os.makedirs(name, exist_ok=True)\<close>: a missing directory part is made first, by the same
  function, where only \<open>FileExistsError\<close> is passed over. Every recursive call is on a
  shorter path, so the length of the path is enough fuel.
\<close>

primrec makedirs_fuel :: "nat \<Rightarrow> string \<Rightarrow> world \<Rightarrow> (error + unit) \<times> world" where
  "makedirs_fuel 0 name w = mkdir_exist_ok name w"
| "makedirs_fuel (Suc n) name w =
     (case makedirs_split name of
        (head, tail) \<Rightarrow>
          if head \<noteq> [] \<and> tail \<noteq> [] \<and> \<not> path_exists head w
          then (case makedirs_fuel n head w of
                  (Inl e, w1) \<Rightarrow>
                    if e = FileExistsError then mkdir_exist_ok name w1 else (Inl e, w1)
                | (Inr _, w1) \<Rightarrow> mkdir_exist_ok name w1)
          else mkdir_exist_ok name w)"

definition makedirs :: "string \<Rightarrow> world \<Rightarrow> (error + unit) \<times> world" where
  "makedirs name w = makedirs_fuel (length name) name w"

section \<open>Content cache\<close>

definition print_line :: "string \<Rightarrow> world \<Rightarrow> world" where
  "print_line s w = w\<lparr>stdout := stdout w @ [s]\<rparr>"

definition send_get :: "lib \<Rightarrow> string \<Rightarrow> world \<Rightarrow> (int \<times> string) \<times> world" where
  "send_get L url w = (http_get L url, w\<lparr>requests := requests w @ [url]\<rparr>)"

definition compute_image_path ::
    "lib \<Rightarrow> string \<Rightarrow> string \<Rightarrow> world \<Rightarrow> (error + string \<times> string) \<times> world" where
  "compute_image_path L url_path root w =
     (let m = sha256_hexdigest url_path
      in case makedirs (path_join root [''.cached'']) w of
           (Inl e, w1) \<Rightarrow> (Inl e, w1)
         | (Inr _, w1) \<Rightarrow>
             (let output_path = splitext (urlparse_path L url_path);
                  image_name = m @ snd output_path;
                  file_path = path_join root [''images'', image_name]
              in (Inr (file_path, image_name), w1)))"

definition download_image :: "lib \<Rightarrow> string \<Rightarrow> string \<Rightarrow> world \<Rightarrow> (error + string) \<times> world" where
  "download_image L url_path root w =
     (case compute_image_path L url_path root w of
        (Inl e, w1) \<Rightarrow> (Inl e, w1)
      | (Inr (image_path, image_name), w1) \<Rightarrow>
          if path_exists image_path w1 then (Inr image_name, w1)
          else (case send_get L url_path w1 of
                  ((status_code, body), w2) \<Rightarrow>
                    if status_code \<noteq> 200
                    then (Inl (SystemExit 1),
                          print_line (''Cannot make request. Result: '' @ show_int status_code) w2)
                    else (case write_file image_path body w2 of
                            (Inl e, w3) \<Rightarrow> (Inl e, w3)
                          | (Inr _, w3) \<Rightarrow> (Inr image_name, w3))))"

definition load_file_content :: "lib \<Rightarrow> string \<Rightarrow> string \<Rightarrow> world \<Rightarrow> (error + string) \<times> world" where
  "load_file_content L url_path file_path w =
     (if path_exists file_path w
      then (case files w file_path of
              Some stored \<Rightarrow> (Inr (universal_newlines stored), w)
            | None \<Rightarrow> (Inl IsADirectoryError, w))
      else (case send_get L url_path w of
              ((status_code, body), w2) \<Rightarrow>
                if status_code \<noteq> 200
                then (Inl (SystemExit 1),
                      print_line (''Cannot make request. Result: '' @ show_int status_code) w2)
                else (case write_file file_path body w2 of
                        (Inl e, w3) \<Rightarrow> (Inl e, w3)
                      | (Inr _, w3) \<Rightarrow> (Inr body, w3))))"

section \<open>Renderer\<close>

abbreviation nl :: string where
  "nl \<equiv> [CHR 0x0A]"

text \<open>\<open>tag.text\<close>: the strings of all text nodes below the node, in document order.\<close>

fun get_text :: "node \<Rightarrow> string" where
  "get_text (Text s) = s"
| "get_text (Tag n a cs) = concat (map get_text cs)"

text \<open>\<open>tag.string\<close>: defined only for a tag with exactly one child, else \<open>None\<close>.\<close>

fun tag_string :: "node \<Rightarrow> string option" where
  "tag_string (Text s) = Some s"
| "tag_string (Tag n a [c]) = tag_string c"
| "tag_string (Tag n a cs) = None"

text \<open>How an f-string shows a value that may be \<open>None\<close>.\<close>

definition fmt :: "string option \<Rightarrow> string" where
  "fmt v = (case v of None \<Rightarrow> ''None'' | Some s \<Rightarrow> s)"

text \<open>Whitespace as \<open>\s\<close> and \<open>str.strip\<close> see it, for code points below 256.\<close>

definition is_space :: "char \<Rightarrow> bool" where
  "is_space c =
     (let n = (of_char c :: nat)
      in (9 \<le> n \<and> n \<le> 13) \<or> (28 \<le> n \<and> n \<le> 32) \<or> n = 133 \<or> n = 160)"

subsection \<open>The pattern of \<open>render_tag_pre\<close>\<close>

text \<open>
  \<open>^\[code\s+lang=(?P<lang>.*)\](?P<content>.*)\[\/code\]$\<close> under MULTILINE and DOTALL.
  Both groups are greedy and the dot matches newlines, so the matcher tries the longest
  \<open>lang\<close> first and, for it, the longest \<open>content\<close>; \<open>$\<close> holds at the end of the text
  and before a newline, \<open>^\<close> at the start of the text and after a newline.
\<close>

definition at_eol :: "string \<Rightarrow> bool" where
  "at_eol s = (case s of [] \<Rightarrow> True | c # _ \<Rightarrow> c = CHR 0x0A)"

text \<open>\<open>(?P<content>.*)\[\/code\]$\<close>: gives the content and the text after the match.\<close>

fun match_content :: "string \<Rightarrow> (string \<times> string) option" where
  "match_content [] = None"
| "match_content (c # cs) =
     (case match_content cs of
        Some (content, r) \<Rightarrow> Some (c # content, r)
      | None \<Rightarrow>
          if prefix ''[/code]'' (c # cs) \<and> at_eol (drop 7 (c # cs))
          then Some ([], drop 7 (c # cs)) else None)"

text \<open>\<open>(?P<lang>.*)\]\<close> followed by the rest of the pattern.\<close>

fun match_lang :: "string \<Rightarrow> (string \<times> string \<times> string) option" where
  "match_lang [] = None"
| "match_lang (c # cs) =
     (case match_lang cs of
        Some (lang, content, r) \<Rightarrow> Some (c # lang, content, r)
      | None \<Rightarrow>
          if c = CHR '']''
          then (case match_content cs of
                  Some (content, r) \<Rightarrow> Some ([], content, r)
                | None \<Rightarrow> None)
          else None)"

text \<open>The pattern after \<open>^\<close>, tried at the start of \<open>s\<close>.\<close>

definition match_code :: "string \<Rightarrow> (string \<times> string \<times> string) option" where
  "match_code s =
     (if prefix ''[code'' s
      then (let r1 = drop 5 s; r2 = dropWhile is_space r1
            in if takeWhile is_space r1 \<noteq> [] \<and> prefix ''lang='' r2
               then match_lang (drop 5 r2) else None)
      else None)"

text \<open>
  \<open>re.finditer\<close>: the matches from left to right, none overlapping. \<open>skip\<close> counts the
  characters of the last match still to pass; \<open>bol\<close> says whether \<open>^\<close> holds here.
\<close>

fun scan_code :: "nat \<Rightarrow> bool \<Rightarrow> string \<Rightarrow> (string \<times> string) list" where
  "scan_code skip bol [] = []"
| "scan_code (Suc k) bol (c # cs) = scan_code k (c = CHR 0x0A) cs"
| "scan_code 0 bol (c # cs) =
     (case (if bol then match_code (c # cs) else None) of
        Some (lang, content, r) \<Rightarrow>
          (lang, content) # scan_code (length cs - length r) (c = CHR 0x0A) cs
      | None \<Rightarrow> scan_code 0 (c = CHR 0x0A) cs)"

text \<open>\<open>re.finditer\<close> returns an iterator object for every text; it is never \<open>None\<close>.\<close>

definition re_finditer_code :: "string \<Rightarrow> (string \<times> string) list option" where
  "re_finditer_code txt = Some (scan_code 0 True txt)"

definition render_tag_pre :: "node \<Rightarrow> string" where
  "render_tag_pre tag =
     (let matches = re_finditer_code (get_text tag)
      in concat (map (\<lambda>(lang, content).
                    ''[source, '' @ lang @ '']'' @ nl @ ''----'' @ nl @ content @ nl @ ''----'' @ nl)
                  (case matches of None \<Rightarrow> [] | Some ms \<Rightarrow> ms))
         @ (if matches = None
            then ''[listing]'' @ nl @ ''....'' @ nl @ get_text tag @ nl @ ''....'' @ nl @ nl
            else []))"

subsection \<open>The dispatch table\<close>

datatype renderer = Renderer | UntoolsRenderer

datatype handler =
    render_tag_p_h | render_tag_h1_h | render_tag_h2_h | render_tag_h3_h | render_tag_h4_h
  | render_tag_ul_h | render_tag_ol_h | render_tag_div_h | render_tag_blockquote_h
  | render_tag_table_h | render_tag_pre_h

definition handlers :: "(string \<times> handler) list" where
  "handlers =
     [(''p'', render_tag_p_h), (''h1'', render_tag_h1_h), (''h2'', render_tag_h2_h),
      (''h3'', render_tag_h3_h), (''h4'', render_tag_h4_h), (''ul'', render_tag_ul_h),
      (''ol'', render_tag_ol_h), (''div'', render_tag_div_h),
      (''blockquote'', render_tag_blockquote_h), (''figure'', render_tag_p_h),
      (''table'', render_tag_table_h), (''pre'', render_tag_pre_h)]"

definition node_name :: "node \<Rightarrow> string option" where
  "node_name t = (case t of Text s \<Rightarrow> None | Tag n a cs \<Rightarrow> Some n)"

definition contents :: "node \<Rightarrow> node list" where
  "contents t = (case t of Text s \<Rightarrow> [] | Tag n a cs \<Rightarrow> cs)"

text \<open>The items of \<open>render_tag_ul\<close> and \<open>render_tag_ol\<close>: one line per \<open>li\<close> child.\<close>

definition render_items :: "string \<Rightarrow> node list \<Rightarrow> string" where
  "render_items bullet cs =
     concat (map (\<lambda>li. bullet @ get_text li @ nl) (filter (\<lambda>li. node_name li = Some ''li'') cs))
     @ nl @ nl"

text \<open>
  The renderer never raises. Its result is what it writes to \<open>file_out\<close> and the lines it
  prints on standard output.
\<close>

fun render_tag :: "lib \<Rightarrow> renderer \<Rightarrow> node \<Rightarrow> string \<times> string list"
  and render_tags :: "lib \<Rightarrow> renderer \<Rightarrow> node list \<Rightarrow> string \<times> string list" where
  "render_tag L R (Text s) = ([], [])"
| "render_tag L R (Tag n a cs) =
     (case map_of handlers n of
        None \<Rightarrow> ([], [''============='', tag_repr L (Tag n a cs)])
      | Some render_tag_p_h \<Rightarrow> (get_text (Tag n a cs) @ nl @ nl, [])
      | Some render_tag_h1_h \<Rightarrow> (''=== '' @ fmt (tag_string (Tag n a cs)) @ nl @ nl, [])
      | Some render_tag_h2_h \<Rightarrow> (''=== '' @ fmt (tag_string (Tag n a cs)) @ nl @ nl, [])
      | Some render_tag_h3_h \<Rightarrow> (''==== '' @ fmt (tag_string (Tag n a cs)) @ nl @ nl, [])
      | Some render_tag_h4_h \<Rightarrow> (''===== '' @ fmt (tag_string (Tag n a cs)) @ nl @ nl, [])
      | Some render_tag_ul_h \<Rightarrow> (render_items ''- '' cs, [])
      | Some render_tag_ol_h \<Rightarrow> (render_items ''* '' cs, [])
      | Some render_tag_div_h \<Rightarrow>
          (case R of
             Renderer \<Rightarrow> render_tags L R cs
           | UntoolsRenderer \<Rightarrow> (get_text (Tag n a cs) @ nl @ nl, []))
      | Some render_tag_blockquote_h \<Rightarrow>
          (case render_tags L R cs of
             (out, diag) \<Rightarrow> (''[quote]'' @ nl @ ''____'' @ nl @ out @ ''____'' @ nl, diag))
      | Some render_tag_table_h \<Rightarrow> (''++++'' @ nl @ prettify L (Tag n a cs) @ ''++++'' @ nl, [])
      | Some render_tag_pre_h \<Rightarrow> (render_tag_pre (Tag n a cs), []))"
| "render_tags L R [] = ([], [])"
| "render_tags L R (t # ts) =
     (case render_tag L R t of
        (out, diag) \<Rightarrow>
          (case render_tags L R ts of (out', diag') \<Rightarrow> (out @ out', diag @ diag')))"

section \<open>Transformer\<close>

subsection \<open>Emphasis and link passes\<close>

text \<open>
  \<open>find_all\<close> lists the matching descendants in document order before the loop starts;
  each is then replaced by a string. An element inside an already replaced one is still
  visited (its attribute lookups can still raise), but its replacement is not in the tree.
\<close>

fun replace_emph :: "string list \<Rightarrow> string \<Rightarrow> node \<Rightarrow> node" where
  "replace_emph names mark (Text s) = Text s"
| "replace_emph names mark (Tag n a cs) =
     (if n \<in> set names then Text (mark @ get_text (Tag n a cs) @ mark)
      else Tag n a (map (replace_emph names mark) cs))"

definition transform_strong :: "node \<Rightarrow> node" where
  "transform_strong site =
     (case site of Text s \<Rightarrow> Text s
      | Tag n a cs \<Rightarrow> Tag n a (map (replace_emph [''strong'', ''b''] ''**'') cs))"

definition transform_italic :: "node \<Rightarrow> node" where
  "transform_italic site =
     (case site of Text s \<Rightarrow> Text s
      | Tag n a cs \<Rightarrow> Tag n a (map (replace_emph [''italic'', ''i'', ''em''] ''__'') cs))"

fun replace_a :: "node \<Rightarrow> error + node"
  and replace_a_list :: "node list \<Rightarrow> error + node list" where
  "replace_a (Text s) = Inr (Text s)"
| "replace_a (Tag n a cs) =
     (if n = ''a''
      then (case map_of a ''href'' of
              None \<Rightarrow> Inl (KeyError ''href'')
            | Some href \<Rightarrow>
                (case replace_a_list cs of
                   Inl e \<Rightarrow> Inl e
                 | Inr _ \<Rightarrow> Inr (Text (''link:'' @ href @ ''['' @ get_text (Tag n a cs) @ '']''))))
      else (case replace_a_list cs of Inl e \<Rightarrow> Inl e | Inr cs' \<Rightarrow> Inr (Tag n a cs')))"
| "replace_a_list [] = Inr []"
| "replace_a_list (t # ts) =
     (case replace_a t of
        Inl e \<Rightarrow> Inl e
      | Inr t' \<Rightarrow> (case replace_a_list ts of Inl e \<Rightarrow> Inl e | Inr ts' \<Rightarrow> Inr (t' # ts')))"

definition transform_a :: "node \<Rightarrow> error + node" where
  "transform_a site =
     (case site of Text s \<Rightarrow> Inr (Text s)
      | Tag n a cs \<Rightarrow> (case replace_a_list cs of Inl e \<Rightarrow> Inl e | Inr cs' \<Rightarrow> Inr (Tag n a cs')))"

subsection \<open>Image pass\<close>

text \<open>\<open>str.split(sep)\<close> for a one-character separator: never an empty list.\<close>

fun split_on :: "char \<Rightarrow> string \<Rightarrow> string list" where
  "split_on sep [] = [[]]"
| "split_on sep (c # cs) =
     (if c = sep then [] # split_on sep cs
      else (case split_on sep cs of [] \<Rightarrow> [[c]] | p # ps \<Rightarrow> (c # p) # ps))"

definition strip :: "string \<Rightarrow> string" where
  "strip s = rev (dropWhile is_space (rev (dropWhile is_space s)))"

text \<open>A \<open>dict\<close> with string keys, in insertion order; storing an existing key replaces its value.\<close>

fun dict_set :: "string \<Rightarrow> string \<Rightarrow> (string \<times> string) list \<Rightarrow> (string \<times> string) list" where
  "dict_set k v [] = [(k, v)]"
| "dict_set k v ((k', v') # r) = (if k = k' then (k, v) # r else (k', v') # dict_set k v r)"

text \<open>The loop over \<open>srcs\<close>: \<open>imgs[ss[1]] = ss[0]\<close>, where \<open>ss[1]\<close> raises on a single token.\<close>

fun collect_srcs :: "string list \<Rightarrow> (string \<times> string) list \<Rightarrow> error + (string \<times> string) list" where
  "collect_srcs [] imgs = Inr imgs"
| "collect_srcs (s # srcs) imgs =
     (case split_on CHR '' '' (strip s) of
        u # d # _ \<Rightarrow> collect_srcs srcs (dict_set d u imgs)
      | _ \<Rightarrow> Inl IndexError)"

text \<open>
  The attribute part of the loop body of \<open>transform_img\<close>: the values of \<open>alt\<close>,
  \<open>width\<close>, \<open>height\<close> and \<open>src\<close> when the element is handed to \<open>urljoin\<close>.
\<close>

definition img_fields :: "(string \<times> string) list \<Rightarrow> error + (string \<times> string \<times> string \<times> string)" where
  "img_fields a =
     (case map_of a ''alt'' of
        None \<Rightarrow> Inl (KeyError ''alt'')
      | Some alt \<Rightarrow>
          (let height = (case map_of a ''height'' of None \<Rightarrow> [] | Some h \<Rightarrow> h);
               width = (case map_of a ''width'' of None \<Rightarrow> [] | Some v \<Rightarrow> v)
           in case map_of a ''src'' of
                None \<Rightarrow> Inl (KeyError ''src'')
              | Some src \<Rightarrow>
                  (case map_of a ''srcset'' of
                     None \<Rightarrow> Inr (alt, width, height, src)
                   | Some srcset \<Rightarrow>
                       (case collect_srcs (split_on CHR '','' srcset) [] of
                          Inl e \<Rightarrow> Inl e
                        | Inr imgs \<Rightarrow>
                            (case sort (map fst imgs) of
                               [] \<Rightarrow> Inl IndexError
                             | largest # _ \<Rightarrow>
                                 (case map_of imgs largest of
                                    None \<Rightarrow> Inl (KeyError largest)
                                  | Some src' \<Rightarrow>
                                      (let width' = (if CHR ''w'' \<in> set largest
                                                     then filter (\<lambda>c. c \<noteq> CHR ''w'') largest else width);
                                           height' = (if CHR ''h'' \<in> set largest
                                                      then filter (\<lambda>c. c \<noteq> CHR ''h'') largest else height)
                                       in Inr (alt, width', height', src'))))))))"

text \<open>
  The candidates of a responsive source set in the spec's words: \<open>(url, descriptor)\<close>
  pairs, one for each comma-separated entry.
\<close>

definition srcset_candidates :: "string \<Rightarrow> (string \<times> string) list" where
  "srcset_candidates srcset =
     map (\<lambda>s. (split_on CHR '' '' (strip s) ! 0, split_on CHR '' '' (strip s) ! 1))
       (split_on CHR '','' srcset)"

definition well_formed_srcset :: "string \<Rightarrow> bool" where
  "well_formed_srcset srcset =
     list_all (\<lambda>s. 2 \<le> length (split_on CHR '' '' (strip s))) (split_on CHR '','' srcset)"

record config =
  src_url :: string
  output_dir :: string

definition replace_img :: "lib \<Rightarrow> config \<Rightarrow> (string \<times> string) list \<Rightarrow> world \<Rightarrow> (error + node) \<times> world" where
  "replace_img L cfg a w =
     (case img_fields a of
        Inl e \<Rightarrow> (Inl e, w)
      | Inr (alt, width, height, src) \<Rightarrow>
          (case download_image L (urljoin L (src_url cfg) src) (output_dir cfg) w of
             (Inl e, w') \<Rightarrow> (Inl e, w')
           | (Inr image_name, w') \<Rightarrow>
               (Inr (Text (''image:'' @ image_name @ ''['' @ alt @ '','' @ width @ '','' @ height @ '']'')), w')))"

fun replace_imgs :: "lib \<Rightarrow> config \<Rightarrow> node \<Rightarrow> world \<Rightarrow> (error + node) \<times> world"
  and replace_imgs_list :: "lib \<Rightarrow> config \<Rightarrow> node list \<Rightarrow> world \<Rightarrow> (error + node list) \<times> world" where
  "replace_imgs L cfg (Text s) w = (Inr (Text s), w)"
| "replace_imgs L cfg (Tag n a cs) w =
     (if n = ''img''
      then (case replace_img L cfg a w of
              (Inl e, w') \<Rightarrow> (Inl e, w')
            | (Inr repl, w') \<Rightarrow>
                (case replace_imgs_list L cfg cs w' of
                   (Inl e, w'') \<Rightarrow> (Inl e, w'')
                 | (Inr _, w'') \<Rightarrow> (Inr repl, w'')))
      else (case replace_imgs_list L cfg cs w of
              (Inl e, w') \<Rightarrow> (Inl e, w')
            | (Inr cs', w') \<Rightarrow> (Inr (Tag n a cs'), w')))"
| "replace_imgs_list L cfg [] w = (Inr [], w)"
| "replace_imgs_list L cfg (t # ts) w =
     (case replace_imgs L cfg t w of
        (Inl e, w') \<Rightarrow> (Inl e, w')
      | (Inr t', w') \<Rightarrow>
          (case replace_imgs_list L cfg ts w' of
             (Inl e, w'') \<Rightarrow> (Inl e, w'')
           | (Inr ts', w'') \<Rightarrow> (Inr (t' # ts'), w'')))"

definition transform_img :: "lib \<Rightarrow> config \<Rightarrow> node \<Rightarrow> world \<Rightarrow> (error + node) \<times> world" where
  "transform_img L cfg site w =
     (case site of Text s \<Rightarrow> (Inr (Text s), w)
      | Tag n a cs \<Rightarrow>
          (case replace_imgs_list L cfg cs w of
             (Inl e, w') \<Rightarrow> (Inl e, w')
           | (Inr cs', w') \<Rightarrow> (Inr (Tag n a cs'), w')))"

subsection \<open>Site variant of the transformer\<close>

text \<open>Searching the parsed tree (\<open>find\<close>): the first matching tag below a node, in document order.\<close>

fun find_node :: "(node \<Rightarrow> bool) \<Rightarrow> node \<Rightarrow> node option"
  and find_list :: "(node \<Rightarrow> bool) \<Rightarrow> node list \<Rightarrow> node option" where
  "find_node P (Text s) = None"
| "find_node P (Tag n a cs) = (if P (Tag n a cs) then Some (Tag n a cs) else find_list P cs)"
| "find_list P [] = None"
| "find_list P (t # ts) = (case find_node P t of Some x \<Rightarrow> Some x | None \<Rightarrow> find_list P ts)"

definition bs_find :: "(node \<Rightarrow> bool) \<Rightarrow> node \<Rightarrow> node option" where
  "bs_find P t = find_list P (contents t)"

definition node_attrs :: "node \<Rightarrow> (string \<times> string) list" where
  "node_attrs t = (case t of Text s \<Rightarrow> [] | Tag n a cs \<Rightarrow> a)"

text \<open>The values of a \<open>class\<close> attribute: its runs of non-whitespace characters.\<close>

fun ws_tokens :: "string \<Rightarrow> string \<Rightarrow> string list" where
  "ws_tokens cur [] = (if cur = [] then [] else [cur])"
| "ws_tokens cur (c # cs) =
     (if is_space c then (if cur = [] then ws_tokens [] cs else cur # ws_tokens [] cs)
      else ws_tokens (cur @ [c]) cs)"

fun join_with :: "string \<Rightarrow> string list \<Rightarrow> string" where
  "join_with sep [] = []"
| "join_with sep [x] = x"
| "join_with sep (x # y # r) = x @ sep @ join_with sep (y # r)"

text \<open>
  A string given for \<open>class\<close> matches when it is one of the values or the whole value
  list joined by blanks. A compiled pattern is searched in each value and in the joined
  list; the patterns of this program are plain text, so the search is a substring test.
\<close>

definition has_class :: "string \<Rightarrow> node \<Rightarrow> bool" where
  "has_class v t =
     (case map_of (node_attrs t) ''class'' of
        None \<Rightarrow> False
      | Some raw \<Rightarrow> v \<in> set (ws_tokens [] raw) \<or> v = join_with '' '' (ws_tokens [] raw))"

definition class_search :: "string \<Rightarrow> node \<Rightarrow> bool" where
  "class_search pat t =
     (case map_of (node_attrs t) ''class'' of
        None \<Rightarrow> False
      | Some raw \<Rightarrow> list_ex (contains pat) (ws_tokens [] raw)
                    \<or> contains pat (join_with '' '' (ws_tokens [] raw)))"

definition has_id :: "string \<Rightarrow> node \<Rightarrow> bool" where
  "has_id v t = (map_of (node_attrs t) ''id'' = Some v)"

definition named :: "string \<Rightarrow> node \<Rightarrow> bool" where
  "named n t = (node_name t = Some n)"

text \<open>\<open>unwrap\<close> of the first matching tag below a node: its children take its place.\<close>

fun unwrap_first :: "(node \<Rightarrow> bool) \<Rightarrow> node list \<Rightarrow> node list option" where
  "unwrap_first P [] = None"
| "unwrap_first P (Text s # ts) = map_option (Cons (Text s)) (unwrap_first P ts)"
| "unwrap_first P (Tag n a cs # ts) =
     (if P (Tag n a cs) then Some (cs @ ts)
      else (case unwrap_first P cs of
              Some cs' \<Rightarrow> Some (Tag n a cs' # ts)
            | None \<Rightarrow> map_option (Cons (Tag n a cs)) (unwrap_first P ts)))"

definition transform_sources :: "node \<Rightarrow> error + node" where
  "transform_sources site =
     (case site of
        Text s \<Rightarrow> Inl AttributeError
      | Tag n a cs \<Rightarrow>
          (case unwrap_first (\<lambda>t. named ''div'' t \<and> class_search ''article-module--sources--'' t) cs of
             None \<Rightarrow> Inl AttributeError
           | Some cs' \<Rightarrow> Inr (Tag n a cs')))"

datatype transformer = Transformer | UntoolsTransformer

text \<open>\<open>transform\<close>; the content root is \<open>None\<close> when the extractor found none.\<close>

definition transform :: "lib \<Rightarrow> transformer \<Rightarrow> config \<Rightarrow> node option \<Rightarrow> world \<Rightarrow> (error + node) \<times> world" where
  "transform L T cfg site w =
     (case site of
        None \<Rightarrow> (Inl AttributeError, w)
      | Some s0 \<Rightarrow>
          (case transform_img L cfg (transform_italic (transform_strong s0)) w of
             (Inl e, w') \<Rightarrow> (Inl e, w')
           | (Inr s1, w') \<Rightarrow>
               (case transform_a s1 of
                  Inl e \<Rightarrow> (Inl e, w')
                | Inr s2 \<Rightarrow>
                    (case T of
                       Transformer \<Rightarrow> (Inr s2, w')
                     | UntoolsTransformer \<Rightarrow>
                         (case transform_sources s2 of
                            Inl e \<Rightarrow> (Inl e, w')
                          | Inr s3 \<Rightarrow> (Inr s3, w'))))))"

section \<open>Extractor\<close>

datatype extractor = Extractor | Untools | UnintendedConsequences | TheMorningPaperExtractor

text \<open>\<open>x.text\<close> where \<open>x\<close> is the result of a \<open>find\<close>: \<open>None\<close> has no attribute \<open>text\<close>.\<close>

definition text_of :: "node option \<Rightarrow> error + string" where
  "text_of x = (case x of None \<Rightarrow> Inl AttributeError | Some t \<Rightarrow> Inr (get_text t))"

definition untools_header :: "node \<Rightarrow> node option" where
  "untools_header bs = bs_find (\<lambda>t. named ''div'' t \<and> class_search ''article-module--top--'' t) bs"

definition get_title :: "extractor \<Rightarrow> node \<Rightarrow> error + string option" where
  "get_title E bs =
     (case E of
        Extractor \<Rightarrow> Inr None
      | Untools \<Rightarrow>
          (case untools_header bs of
             None \<Rightarrow> Inl AttributeError
           | Some header \<Rightarrow>
               (case text_of (bs_find (named ''h2'') header) of
                  Inl e \<Rightarrow> Inl e | Inr title \<Rightarrow> Inr (Some title)))
      | UnintendedConsequences \<Rightarrow>
          (case text_of (bs_find (named ''h1'') bs) of Inl e \<Rightarrow> Inl e | Inr t \<Rightarrow> Inr (Some t))
      | TheMorningPaperExtractor \<Rightarrow>
          (case text_of (bs_find (\<lambda>t. named ''h1'' t \<and> has_class ''entry-title'' t) bs) of
             Inl e \<Rightarrow> Inl e | Inr t \<Rightarrow> Inr (Some t)))"

definition get_published :: "node \<Rightarrow> string option" where
  "get_published bs =
     (case bs_find (\<lambda>t. named ''time'' t \<and> has_class ''entry-date published'' t) bs of
        Some time_published \<Rightarrow> Some (get_text time_published)
      | None \<Rightarrow> None)"

definition get_metadata :: "extractor \<Rightarrow> node \<Rightarrow> error + string" where
  "get_metadata E bs =
     (case E of
        Untools \<Rightarrow>
          (case untools_header bs of
             None \<Rightarrow> Inl AttributeError
           | Some header \<Rightarrow>
               (case text_of (bs_find (\<lambda>t. named ''span'' t \<and> class_search ''tag-module--tag--'' t) header) of
                  Inl e \<Rightarrow> Inl e
                | Inr tag \<Rightarrow>
                    (case text_of (bs_find (\<lambda>t. named ''div'' t
                                              \<and> class_search ''article-module--when-useful--'' t) header) of
                       Inl e \<Rightarrow> Inl e
                     | Inr usage \<Rightarrow>
                         Inr (''.'' @ tag @ nl @ ''****'' @ nl @ usage @ nl @ ''****'' @ nl @ nl))))
      | _ \<Rightarrow> Inr [])"

text \<open>\<open>remove_tag\<close>: the first match is taken out of the tree; no match changes nothing.\<close>

fun extract_first :: "(node \<Rightarrow> bool) \<Rightarrow> node list \<Rightarrow> node list option" where
  "extract_first P [] = None"
| "extract_first P (Text s # ts) = map_option (Cons (Text s)) (extract_first P ts)"
| "extract_first P (Tag n a cs # ts) =
     (if P (Tag n a cs) then Some ts
      else (case extract_first P cs of
              Some cs' \<Rightarrow> Some (Tag n a cs' # ts)
            | None \<Rightarrow> map_option (Cons (Tag n a cs)) (extract_first P ts)))"

definition remove_tag :: "node option \<Rightarrow> (node \<Rightarrow> bool) \<Rightarrow> error + node option" where
  "remove_tag site P =
     (case site of
        None \<Rightarrow> Inl AttributeError
      | Some (Text s) \<Rightarrow> Inr (Some (Text s))
      | Some (Tag n a cs) \<Rightarrow>
          (case extract_first P cs of
             None \<Rightarrow> Inr (Some (Tag n a cs))
           | Some cs' \<Rightarrow> Inr (Some (Tag n a cs'))))"

fun remove_tags :: "node option \<Rightarrow> (node \<Rightarrow> bool) list \<Rightarrow> error + node option" where
  "remove_tags site [] = Inr site"
| "remove_tags site (P # Ps) =
     (case remove_tag site P of Inl e \<Rightarrow> Inl e | Inr site' \<Rightarrow> remove_tags site' Ps)"

text \<open>\<open>Extractor.cleanup\<close>, the part all variants share; \<open>site\<close> is the working root.\<close>

definition base_cleanup :: "node option \<Rightarrow> error + node option" where
  "base_cleanup site =
     remove_tags site
       [\<lambda>t. named ''div'' t \<and> has_class ''site-branding'' t,
        \<lambda>t. named ''div'' t \<and> has_class ''navigation-top'' t,
        \<lambda>t. named ''footer'' t \<and> has_class ''site-footer'' t,
        \<lambda>t. named ''div'' t \<and> has_class ''searchsettings'' t,
        \<lambda>t. named ''section'' t \<and> has_id ''ajaxsearchlitewidget-2'' t,
        \<lambda>t. named ''aside'' t \<and> has_id ''secondary'' t,
        \<lambda>t. named ''nav'' t \<and> has_class ''post-navigation'' t,
        \<lambda>t. named ''header'' t \<and> has_id ''masthead'' t]"

text \<open>\<open>cleanup\<close> gives the new \<open>site\<close>; the generic extractor never sets one.\<close>

definition cleanup :: "extractor \<Rightarrow> node \<Rightarrow> error + node option" where
  "cleanup E bs =
     (case E of
        Extractor \<Rightarrow> base_cleanup None
      | Untools \<Rightarrow> base_cleanup (bs_find (class_search ''article-module--content--'') bs)
      | UnintendedConsequences \<Rightarrow> base_cleanup (bs_find (has_id ''page'') bs)
      | TheMorningPaperExtractor \<Rightarrow>
          base_cleanup (bs_find (\<lambda>t. named ''div'' t \<and> has_class ''entry-content'' t) bs))"

definition get_content :: "extractor \<Rightarrow> node option \<Rightarrow> error + node option" where
  "get_content E site =
     (case E of
        UnintendedConsequences \<Rightarrow>
          (case site of
             None \<Rightarrow> Inl AttributeError
           | Some s \<Rightarrow> Inr (bs_find (has_class ''entry-content'') s))
      | _ \<Rightarrow> Inr site)"

section \<open>Site strategy\<close>

definition create_extractor :: "string \<Rightarrow> extractor" where
  "create_extractor url_path =
     (if contains ''untools.co'' url_path then Untools
      else if contains ''unintendedconsequenc'' url_path then UnintendedConsequences
      else if contains ''blog.acolyer.org'' url_path then TheMorningPaperExtractor
      else Extractor)"

definition create_transformer :: "string \<Rightarrow> transformer" where
  "create_transformer url_path =
     (if contains ''untools.co'' url_path then UntoolsTransformer
      else if contains ''unintendedconsequenc'' url_path then Transformer
      else if contains ''blog.acolyer.org'' url_path then Transformer
      else Transformer)"

definition create_renderer :: "string \<Rightarrow> renderer" where
  "create_renderer url_path =
     (if contains ''untools.co'' url_path then UntoolsRenderer
      else if contains ''unintendedconsequenc'' url_path then Renderer
      else if contains ''blog.acolyer.org'' url_path then Renderer
      else Renderer)"

text \<open>
  The selection rule in the spec's words: an ordered table of site identifiers, the first
  identifier that occurs in the URL decides, and no match gives the generic triple.
\<close>

definition site_table :: "(string \<times> extractor \<times> transformer \<times> renderer) list" where
  "site_table =
     [(''untools.co'', Untools, UntoolsTransformer, UntoolsRenderer),
      (''unintendedconsequenc'', UnintendedConsequences, Transformer, Renderer),
      (''blog.acolyer.org'', TheMorningPaperExtractor, Transformer, Renderer)]"

definition first_match_triple :: "string \<Rightarrow> extractor \<times> transformer \<times> renderer" where
  "first_match_triple url_path =
     (case find (\<lambda>(ident, triple). contains ident url_path) site_table of
        Some (ident, triple) \<Rightarrow> triple
      | None \<Rightarrow> (Extractor, Transformer, Renderer))"

section \<open>Document assembler\<close>

definition append_file :: "string \<Rightarrow> string \<Rightarrow> world \<Rightarrow> world" where
  "append_file p txt w =
     w\<lparr>files := (files w)(p \<mapsto> (case files w p of None \<Rightarrow> txt | Some old \<Rightarrow> old @ txt))\<rparr>"

definition page_cache_path :: "string \<Rightarrow> string \<Rightarrow> string" where
  "page_cache_path url_path root = path_join root [''.cached'', sha256_hexdigest url_path @ ''.html'']"

definition article_dir :: "lib \<Rightarrow> string \<Rightarrow> string \<Rightarrow> string" where
  "article_dir L url_path root = path_join root [basename (rstrip_slash (urlparse_path L url_path))]"

definition article_path :: "lib \<Rightarrow> string \<Rightarrow> string \<Rightarrow> string" where
  "article_path L url_path root = path_join (article_dir L url_path root) [''index.asciidoc'']"

text \<open>
  The body of the \<open>with open(output_path, 'w')\<close> block, given the parsed page; the file
  is open and empty when the body starts. Every \<open>a_out.write\<close> appends to the output
  file, so what was written before an exception stays in the file. The transformer changes the content root in place; the second call
  of \<open>get_content\<close>, for the renderer, returns that same node, so the renderer gets the
  transformed root \<open>content'\<close>.
\<close>

definition write_article :: "lib \<Rightarrow> string \<Rightarrow> string \<Rightarrow> string \<Rightarrow> node \<Rightarrow> world \<Rightarrow> (error + unit) \<times> world" where
  "write_article L url_path root output_path bs w =
     (let E = create_extractor url_path
      in case get_title E bs of
           Inl e \<Rightarrow> (Inl e, w)
         | Inr title \<Rightarrow>
             (let w1 = append_file output_path (''== '' @ fmt title @ nl @ nl) w;
                  published_info = (case get_published bs of
                                      Some time_published \<Rightarrow> ''published on '' @ time_published
                                    | None \<Rightarrow> [])
              in case get_metadata E bs of
                   Inl e \<Rightarrow> (Inl e, w1)
                 | Inr metadata \<Rightarrow>
                     (let w2 = append_file output_path
                                 (''link:'' @ url_path @ ''[original article] '' @ published_info
                                  @ nl @ nl @ metadata) w1
                      in case cleanup E bs of
                           Inl e \<Rightarrow> (Inl e, w2)
                         | Inr site \<Rightarrow>
                             (case get_content E site of
                                Inl e \<Rightarrow> (Inl e, w2)
                              | Inr content \<Rightarrow>
                                  (case transform L (create_transformer url_path)
                                          \<lparr>src_url = url_path, output_dir = root\<rparr> content w2 of
                                     (Inl e, w3) \<Rightarrow> (Inl e, w3)
                                   | (Inr content', w3) \<Rightarrow>
                                       (case render_tags L (create_renderer url_path) (contents content') of
                                          (out, diag) \<Rightarrow>
                                            (Inr (),
                                             append_file output_path out
                                               (w3\<lparr>stdout := stdout w3 @ diag\<rparr>))))))))"

definition download_content :: "lib \<Rightarrow> string \<Rightarrow> string \<Rightarrow> world \<Rightarrow> (error + string) \<times> world" where
  "download_content L url_path root w =
     (let file_path = page_cache_path url_path root;
          output_path = article_path L url_path root
      in case makedirs (article_dir L url_path root) w of
           (Inl e, w0) \<Rightarrow> (Inl e, w0)
         | (Inr _, w0) \<Rightarrow>
             (case load_file_content L url_path file_path (print_line output_path w0) of
                (Inl e, w2) \<Rightarrow> (Inl e, w2)
              | (Inr content, w2) \<Rightarrow>
                  (case write_file output_path [] w2 of
                     (Inl e, w3) \<Rightarrow> (Inl e, w3)
                   | (Inr _, w3) \<Rightarrow>
                       (case write_article L url_path root output_path (parse_html L content) w3 of
                          (Inl e, w4) \<Rightarrow> (Inl e, w4)
                        | (Inr _, w4) \<Rightarrow> (Inr output_path, w4)))))"

record configuration =
  title :: string
  author :: string
  version :: string
  homepage :: string
  cfg_output_dir :: string
  urls :: "string list"

definition makefile_template :: string where
  "makefile_template =
     ''html:'' @ nl @ [CHR 0x09] @ ''asciidoctor index.asciidoc -d book -b html5 -D output'' @ nl
     @ [CHR 0x09] @ ''cp -r images output/'' @ nl @ nl
     @ ''epub:'' @ nl @ [CHR 0x09] @ ''asciidoctor-epub3 index.asciidoc -d book -D output'' @ nl"

definition generate_makefile :: "string \<Rightarrow> world \<Rightarrow> (error + unit) \<times> world" where
  "generate_makefile out_dir w = write_file (path_join out_dir [''Makefile'']) makefile_template w"

text \<open>The loop of \<open>main\<close> over the configured URLs; \<open>fs\<close> is the list \<open>files\<close> so far.\<close>

fun download_all :: "lib \<Rightarrow> string \<Rightarrow> string list \<Rightarrow> string list \<Rightarrow> world \<Rightarrow> (error + string list) \<times> world" where
  "download_all L root [] fs w = (Inr fs, w)"
| "download_all L root (url_path # paths) fs w =
     (case download_content L url_path root w of
        (Inl e, w') \<Rightarrow> (Inl e, w')
      | (Inr output_path, w') \<Rightarrow>
          download_all L root paths (fs @ [re_sub_root L root output_path]) w')"

definition index_content :: "configuration \<Rightarrow> string list \<Rightarrow> string" where
  "index_content c fs =
     ''= '' @ title c @ nl @ author c @ nl @ version c @ nl @ '':toc:'' @ nl
     @ '':imagesdir: images'' @ nl @ '':homepage: '' @ homepage c @ nl @ nl
     @ join_with nl (map (\<lambda>x. ''include::'' @ x @ ''[]'') fs) @ nl"

text \<open>\<open>main\<close> after the configuration is read (the run without \<open>--new\<close>).\<close>

definition main :: "lib \<Rightarrow> configuration \<Rightarrow> world \<Rightarrow> (error + unit) \<times> world" where
  "main L c w =
     (let root = cfg_output_dir c
      in case makedirs (path_join root [''.cached'']) w of
           (Inl e, w1) \<Rightarrow> (Inl e, w1)
         | (Inr _, w1) \<Rightarrow>
             (case makedirs (path_join root [''images'']) w1 of
                (Inl e, w2) \<Rightarrow> (Inl e, w2)
              | (Inr _, w2) \<Rightarrow>
                  (case generate_makefile root w2 of
                     (Inl e, w3) \<Rightarrow> (Inl e, w3)
                   | (Inr _, w3) \<Rightarrow>
                       (case download_all L root (urls c) [] w3 of
                          (Inl e, w4) \<Rightarrow> (Inl e, w4)
                        | (Inr fs, w4) \<Rightarrow>
                            write_file (path_join root [''index.asciidoc''])
                              (index_content c fs) w4))))"

section \<open>Example inputs\<close>

text \<open>
  Two articles of a known site, each with one image; the image of the second cannot be
  fetched. The library functions are given at these inputs.
\<close>

definition example_page :: "string \<Rightarrow> node" where
  "example_page src =
     Tag ''[document]'' []
       [Tag ''h1'' [(''class'', ''entry-title'')] [Text ''Title''],
        Tag ''div'' [(''class'', ''entry-content'')]
          [Tag ''p'' [] [Text ''Hello '', Tag ''img'' [(''alt'', ''pic''), (''src'', src)] []]]]"

definition example_lib :: lib where
  "example_lib =
     \<lparr>http_get = (\<lambda>u. if u = ''http://a.test/missing.png'' then (404, ''not found'')
                       else if u = ''https://blog.acolyer.org/bad'' then (200, ''bad'')
                       else (200, ''body'')),
      urlparse_path = (\<lambda>u. if u = ''https://blog.acolyer.org/good'' then ''/good''
                            else if u = ''https://blog.acolyer.org/bad'' then ''/bad''
                            else if u = ''http://a.test/missing.png'' then ''/missing.png''
                            else ''/img/b.png''),
      urljoin = (\<lambda>base u. u),
      parse_html = (\<lambda>s. if s = ''bad'' then example_page ''http://a.test/missing.png''
                         else example_page ''http://a.test/img/b.png''),
      prettify = (\<lambda>t. []),
      tag_repr = (\<lambda>t. []),
      re_sub_root = (\<lambda>root s. if prefix (root @ ''/'') s then drop (length root + 1) s else s)\<rparr>"

definition empty_world :: world where
  "empty_world = \<lparr>files = Map.empty, dirs = {}, requests = [], stdout = []\<rparr>"

definition example_config :: config where
  "example_config = \<lparr>src_url = ''https://blog.acolyer.org/good'', output_dir = ''out''\<rparr>"


text \<open>A world whose cache holds the first article and its image.\<close>

definition cached_world :: world where
  "cached_world =
     \<lparr>files = [page_cache_path ''https://blog.acolyer.org/good'' ''out'' \<mapsto> ''<html>'',
               ''out/images/'' @ sha256_hexdigest ''http://a.test/img/b.png'' @ ''.png'' \<mapsto> ''png''],
      dirs = {''out'', ''out/.cached'', ''out/images''}, requests = [], stdout = []\<rparr>"

text \<open>A world with the cache directories and nothing in them.\<close>

definition ready_world :: world where
  "ready_world =
     \<lparr>files = Map.empty, dirs = {''out'', ''out/.cached'', ''out/images''},
      requests = [], stdout = []\<rparr>"

section \<open>The fetch policy, as a predicate on a run\<close>

definition fetch_ok :: "lib \<Rightarrow> string \<Rightarrow> bool" where
  "fetch_ok L u = (fst (http_get L u) = 200)"

definition fetch_message :: "lib \<Rightarrow> string \<Rightarrow> string" where
  "fetch_message L u = ''Cannot make request. Result: '' @ show_int (fst (http_get L u))"

text \<open>
  \<open>fatal_policy L w res\<close> looks at the requests that a computation started in \<open>w\<close>
  has sent when it ends with \<open>res\<close>. Every request but the last was answered with
  status 200. A computation that returns normally had all its requests answered with 200.
  If the last request was answered with another status, the computation has raised
  \<open>SystemExit(1)\<close> and the last line printed is the diagnostic message for that request:
  nothing was fetched or printed after the failure.
\<close>

definition fatal_policy :: "lib \<Rightarrow> world \<Rightarrow> (error + 'a) \<times> world \<Rightarrow> bool" where
  "fatal_policy L w res =
     (let rs = drop (length (requests w)) (requests (snd res))
      in requests (snd res) = requests w @ rs
         \<and> (case fst res of
               Inr _ \<Rightarrow> list_all (fetch_ok L) rs
             | Inl e \<Rightarrow>
                 list_all (fetch_ok L) (butlast rs)
                 \<and> (if rs \<noteq> [] \<and> \<not> fetch_ok L (last rs)
                     then e = SystemExit 1 \<and> stdout (snd res) \<noteq> []
                          \<and> last (stdout (snd res)) = fetch_message L (last rs)
                     else True)))"

section \<open>Relations between the worlds of two runs\<close>

text \<open>
  Page cache files are the paths that end in \<open>l\<close> (of \<open>.html\<close>); the files the
  assembler writes end in other letters. \<open>covers a b\<close>: world \<open>b\<close> has every file and
  directory of world \<open>a\<close>, and the same text in every page cache file.
\<close>

definition cache_shaped :: "string \<Rightarrow> bool" where
  "cache_shaped p = (p \<noteq> [] \<and> last p = CHR ''l'')"

definition covers :: "world \<Rightarrow> world \<Rightarrow> bool" where
  "covers a b =
     (dom (files a) \<subseteq> dom (files b) \<and> dirs a \<subseteq> dirs b
      \<and> (\<forall>p. cache_shaped p \<longrightarrow> files a p = files b p))"

section \<open>Directories that are in place\<close>

text \<open>
  \<open>dir_ready name w\<close>: \<open>name\<close> is a directory and the directory part that \<open>os.makedirs\<close>
  looks at exists. \<open>cache_ready root w\<close>: the two cache directories under \<open>root\<close> are in
  place. \<open>grows w w'\<close>: from \<open>w\<close> to \<open>w'\<close> no file or directory has gone, no existing file
  has become a directory, the requests sent have only been added to, and when none was
  added the page cache files have kept their text.
\<close>

definition dir_ready :: "string \<Rightarrow> world \<Rightarrow> bool" where
  "dir_ready name w =
     (is_dir name w
      \<and> (case makedirs_split name of (h, t) \<Rightarrow> h = [] \<or> t = [] \<or> path_exists h w))"


definition grows :: "world \<Rightarrow> world \<Rightarrow> bool" where
  "grows w w' =
     (dom (files w) \<subseteq> dom (files w') \<and> dirs w \<subseteq> dirs w'
      \<and> (\<forall>d. d \<in> dirs w' \<and> d \<in> dom (files w) \<longrightarrow> d \<in> dirs w)
      \<and> prefix (requests w) (requests w')
      \<and> (requests w' = requests w \<longrightarrow> (\<forall>p. cache_shaped p \<longrightarrow> files w' p = files w p)))"

section \<open>Properties of the renderer\<close>





text \<open>
  Claim C2. A block whose text has no \<open>[code lang=X]...[/code]\<close> wrapper: the renderer
  writes nothing at all for it, since the test \<open>matches is None\<close> never holds.
\<close>

theorem render_tag_pre_without_wrapper:
  "render_tag_pre (Tag ''pre'' [] [Text ''hello'']) = []"
  by (simp add: render_tag_pre_def re_finditer_code_def match_code_def)

lemma render_tag_pre_never_listing:
  "render_tag_pre tag =
     concat (map (\<lambda>(lang, content).
                ''[source, '' @ lang @ '']'' @ nl @ ''----'' @ nl @ content @ nl @ ''----'' @ nl)
              (scan_code 0 True (get_text tag)))"
  by (simp add: render_tag_pre_def re_finditer_code_def)

lemma render_tag_pre_example:
  "render_tag_pre (Tag ''pre'' [] [Text ''[code lang=python]print(1)[/code]'']) =
     ''[source, python]'' @ nl @ ''----'' @ nl @ ''print(1)'' @ nl @ ''----'' @ nl"
  by code_simp

text \<open>
  Both groups of the pattern are greedy, so two wrappers on two lines give one match whose
  language part runs up to the last closing bracket before the last content.
\<close>

lemma render_tag_pre_two_wrappers:
  "scan_code 0 True (''[code lang=a]x[/code]'' @ nl @ ''[code lang=b]y[/code]'') =
     [(''a]x[/code]'' @ nl @ ''[code lang=b'', ''y'')]"
  by code_simp

section \<open>Properties of the file system\<close>

lemma rstrip_slash_idem: "rstrip_slash (rstrip_slash p) = rstrip_slash p"
proof -
  have "dropWhile P (dropWhile P xs) = dropWhile P xs" for P and xs :: "'a list"
    by (induction xs) auto
  then show ?thesis by (simp add: rstrip_slash_def)
qed

lemma rstrip_slash_Nil_iff: "rstrip_slash p = [] \<longleftrightarrow> p = [] \<or> all_slashes p"
  by (auto simp: rstrip_slash_def all_slashes_def dropWhile_eq_Nil_conv list_all_iff)

lemma rstrip_slash_id: "p \<noteq> [] \<Longrightarrow> last p \<noteq> CHR ''/'' \<Longrightarrow> rstrip_slash p = p"
  by (cases p rule: rev_cases) (simp_all add: rstrip_slash_def)

lemma rstrip_slash_snoc: "rstrip_slash (p @ ''/'') = rstrip_slash p"
  by (simp add: rstrip_slash_def)

lemma all_slashes_snoc: "all_slashes (p @ ''/'') \<longleftrightarrow> p = [] \<or> all_slashes p"
  by (auto simp: all_slashes_def)

lemma is_dir_rstrip: "is_dir p w \<Longrightarrow> \<not> all_slashes p \<Longrightarrow> is_dir (rstrip_slash p) w"
  by (auto simp: is_dir_def rstrip_slash_idem rstrip_slash_Nil_iff)

lemma is_dir_mono: "is_dir p w \<Longrightarrow> dirs w \<subseteq> dirs w' \<Longrightarrow> is_dir p w'"
  by (auto simp: is_dir_def)

lemma path_exists_mono:
  "path_exists p w \<Longrightarrow> dirs w \<subseteq> dirs w' \<Longrightarrow> dom (files w) \<subseteq> dom (files w') \<Longrightarrow> path_exists p w'"
  by (auto simp: path_exists_def is_dir_def is_file_def)

lemma rfind_absent: "c \<notin> set s \<Longrightarrow> rfind c s = - 1"
  by (simp add: rfind_def)

lemma rfind_after_slash:
  assumes "CHR ''/'' \<notin> set x" and "d \<noteq> []" and "last d = CHR ''/''"
  shows "rfind CHR ''/'' (d @ x) = int (length d) - 1"
proof -
  from assms(2,3) obtain d0 where d: "d = d0 @ ''/''"
    by (cases d rule: rev_cases) auto
  have tw: "\<forall>c \<in> set ys. c \<noteq> CHR ''/'' \<Longrightarrow>
            takeWhile (\<lambda>c. c \<noteq> CHR ''/'') (ys @ CHR ''/'' # zs) = ys" for ys zs
    by (induction ys) auto
  have "takeWhile (\<lambda>c. c \<noteq> CHR ''/'') (rev x @ CHR ''/'' # rev d0) = rev x"
    using assms(1) by (intro tw) auto
  then show ?thesis
    by (simp add: rfind_def d)
qed

lemma posix_split_idem_head:
  assumes "posix_split p = (h, t)"
  shows "all_slashes h \<or> rstrip_slash h = h"
proof (cases "h = []")
  case True
  then show ?thesis by (simp add: rstrip_slash_def)
next
  case False
  with assms show ?thesis
    by (auto simp: posix_split_def Let_def rstrip_slash_idem split: if_splits)
qed

lemma makedirs_split_idem_head:
  assumes "makedirs_split name = (h, t)"
  shows "all_slashes h \<or> rstrip_slash h = h"
  using assms posix_split_idem_head
  by (auto simp: makedirs_split_def split: prod.splits if_splits)

text \<open>The directory part of a path made by \<open>os.path.join(d, x)\<close>, for a name \<open>x\<close> without slash.\<close>

lemma path_join_name:
  assumes "x \<noteq> []" and "CHR ''/'' \<notin> set x"
  shows "path_join d [x] = (if d = [] \<or> last d = CHR ''/'' then d else d @ ''/'') @ x"
proof -
  from assms have "hd x \<noteq> CHR ''/''" by (cases x) auto
  with assms(1) show ?thesis by (simp add: path_join_def path_join2_def)
qed

lemma posix_split_join:
  assumes "x \<noteq> []" and "CHR ''/'' \<notin> set x"
  shows "posix_split (path_join d [x]) =
           (if d = [] then []
            else if all_slashes d then d
            else rstrip_slash d, x)"
proof (cases "d = []")
  case True
  with assms show ?thesis
    by (simp add: path_join_name posix_split_def rfind_absent)
next
  case False
  let ?d = "if last d = CHR ''/'' then d else d @ ''/''"
  have ne: "?d \<noteq> []" and l: "last ?d = CHR ''/''"
    using False by auto
  have j: "path_join d [x] = ?d @ x"
    using assms False by (simp add: path_join_name)
  have r: "rfind CHR ''/'' (?d @ x) = int (length ?d) - 1"
    by (rule rfind_after_slash [OF assms(2) ne l])
  have i: "nat (rfind CHR ''/'' (?d @ x) + 1) = length ?d"
    unfolding r by simp
  have a: "all_slashes ?d \<longleftrightarrow> all_slashes d"
    using False by (auto simp: all_slashes_snoc)
  have s: "rstrip_slash ?d = rstrip_slash d"
    by (simp add: rstrip_slash_snoc)
  have eq: "all_slashes d \<Longrightarrow> ?d = d"
    by (cases d rule: rev_cases) (auto simp: all_slashes_def)
  show ?thesis
    unfolding j posix_split_def Let_def i using False ne a s eq by auto
qed

lemma parent_error_join:
  assumes "x \<noteq> []" and "CHR ''/'' \<notin> set x" and "d = [] \<or> is_dir d w"
  shows "parent_error (path_join d [x]) w = None"
proof (cases "d = []")
  case True
  with assms show ?thesis by (simp add: parent_error_def posix_split_join)
next
  case False
  with assms(3) have dir: "is_dir d w" by simp
  show ?thesis
  proof (cases "all_slashes d")
    case True
    then show ?thesis
      using assms(1,2) False by (simp add: parent_error_def posix_split_join is_dir_def)
  next
    case ns: False
    from is_dir_rstrip [OF dir ns] show ?thesis
      using assms(1,2) False ns by (simp add: parent_error_def posix_split_join)
  qed
qed

lemma open_error_join:
  assumes "x \<noteq> []" and "CHR ''/'' \<notin> set x" and "d = [] \<or> is_dir d w"
    and "\<not> is_dir (path_join d [x]) w"
  shows "open_error (path_join d [x]) w = None"
proof -
  have "path_join d [x] \<noteq> [] \<and> last (path_join d [x]) = last x"
    using assms(1,2) by (simp add: path_join_name)
  moreover have "last x \<noteq> CHR ''/''"
    using assms(1,2) by (metis last_in_set)
  ultimately show ?thesis
    using assms(4) parent_error_join [OF assms(1-3)] by (simp add: open_error_def)
qed

subsection \<open>\<open>os.makedirs\<close>\<close>

lemma mkdir_exist_ok_frame:
  assumes "mkdir_exist_ok name w = (r, w')"
  shows "files w' = files w \<and> requests w' = requests w \<and> stdout w' = stdout w
         \<and> dirs w \<subseteq> dirs w' \<and> (\<forall>d. d \<in> dirs w' \<and> d \<in> dom (files w) \<longrightarrow> d \<in> dirs w)
         \<and> (r = Inr () \<longrightarrow> is_dir name w')
         \<and> (r = Inl FileExistsError \<longrightarrow> is_file (rstrip_slash name) w')"
  using assms
  by (auto simp: mkdir_exist_ok_def is_dir_def is_file_def parent_error_def Let_def
      split: if_splits option.splits)

lemma makedirs_fuel_frame:
  "makedirs_fuel n name w = (r, w') \<Longrightarrow>
     files w' = files w \<and> requests w' = requests w \<and> stdout w' = stdout w
     \<and> dirs w \<subseteq> dirs w' \<and> (\<forall>d. d \<in> dirs w' \<and> d \<in> dom (files w) \<longrightarrow> d \<in> dirs w)
     \<and> (r = Inr () \<longrightarrow> is_dir name w')
     \<and> (r = Inl FileExistsError \<longrightarrow> is_file (rstrip_slash name) w')"
proof (induction n arbitrary: name w r w')
  case 0
  then show ?case using mkdir_exist_ok_frame [of name w r w'] by simp
next
  case (Suc n)
  obtain h t where sp: "makedirs_split name = (h, t)" by (cases "makedirs_split name")
  show ?case
  proof (cases "h \<noteq> [] \<and> t \<noteq> [] \<and> \<not> path_exists h w")
    case False
    with Suc.prems sp have "mkdir_exist_ok name w = (r, w')" by auto
    from mkdir_exist_ok_frame [OF this] show ?thesis .
  next
    case True
    obtain r1 w1 where rec: "makedirs_fuel n h w = (r1, w1)" by (cases "makedirs_fuel n h w")
    note f1 = Suc.IH [OF rec]
    show ?thesis
    proof (cases "r1 = Inr () \<or> r1 = Inl FileExistsError")
      case True
      with Suc.prems sp \<open>h \<noteq> [] \<and> t \<noteq> [] \<and> \<not> path_exists h w\<close> rec
      have "mkdir_exist_ok name w1 = (r, w')"
        by (auto split: sum.splits)
      from mkdir_exist_ok_frame [OF this] f1 show ?thesis
        by (auto simp: is_file_def)
    next
      case False
      with Suc.prems sp \<open>h \<noteq> [] \<and> t \<noteq> [] \<and> \<not> path_exists h w\<close> rec
      have "r = r1" and "w' = w1"
        by (auto split: sum.splits)
      with f1 False show ?thesis by auto
    qed
  qed
qed

lemma makedirs_frame:
  assumes "makedirs name w = (r, w')"
  shows "files w' = files w \<and> requests w' = requests w \<and> stdout w' = stdout w
         \<and> dirs w \<subseteq> dirs w' \<and> (\<forall>d. d \<in> dirs w' \<and> d \<in> dom (files w) \<longrightarrow> d \<in> dirs w)
         \<and> (r = Inr () \<longrightarrow> is_dir name w')"
  using makedirs_fuel_frame [OF assms [unfolded makedirs_def]] by blast

lemma makedirs_ready_noop:
  assumes "dir_ready name w"
  shows "makedirs name w = (Inr (), w)"
proof -
  from assms have d: "is_dir name w" by (simp add: dir_ready_def)
  then have "name \<noteq> []" by (auto simp: is_dir_def all_slashes_def)
  then obtain n where n: "length name = Suc n" by (cases name) auto
  have m: "mkdir_exist_ok name w = (Inr (), w)"
    using d \<open>name \<noteq> []\<close> by (simp add: mkdir_exist_ok_def)
  show ?thesis
    using assms m unfolding makedirs_def n
    by (auto simp: dir_ready_def split: prod.splits)
qed

lemma makedirs_makes_ready:
  assumes "makedirs name w = (Inr (), w')"
  shows "dir_ready name w'"
proof -
  from makedirs_frame [OF assms] have d: "is_dir name w'" and f: "files w' = files w"
    and g: "dirs w \<subseteq> dirs w'"
    by simp_all
  obtain h t where sp: "makedirs_split name = (h, t)" by (cases "makedirs_split name")
  have "h = [] \<or> t = [] \<or> path_exists h w'"
  proof (cases "h \<noteq> [] \<and> t \<noteq> [] \<and> \<not> path_exists h w")
    case False
    then show ?thesis
      using path_exists_mono [of h w w'] g f by auto
  next
    case True
    from d have "name \<noteq> []" by (auto simp: is_dir_def all_slashes_def)
    then obtain n where n: "length name = Suc n" by (cases name) auto
    obtain r1 w1 where rec: "makedirs_fuel n h w = (r1, w1)" by (cases "makedirs_fuel n h w")
    from assms True sp rec have ok: "r1 = Inr () \<or> r1 = Inl FileExistsError"
      and last: "mkdir_exist_ok name w1 = (Inr (), w')"
      unfolding makedirs_def n by (auto split: sum.splits if_splits)
    from True have "\<not> all_slashes h" by (auto simp: path_exists_def is_dir_def)
    with makedirs_split_idem_head [OF sp] have hh: "rstrip_slash h = h" by simp
    from makedirs_fuel_frame [OF rec] ok hh have "path_exists h w1"
      by (auto simp: path_exists_def)
    with mkdir_exist_ok_frame [OF last] show ?thesis
      using path_exists_mono [of h w1 w'] by auto
  qed
  with d sp show ?thesis by (simp add: dir_ready_def)
qed

lemma dir_ready_mono:
  "dir_ready name w \<Longrightarrow> dirs w \<subseteq> dirs w' \<Longrightarrow> dom (files w) \<subseteq> dom (files w') \<Longrightarrow> dir_ready name w'"
  using path_exists_mono [of _ w w'] is_dir_mono [of name w w']
  by (auto simp: dir_ready_def split: prod.splits)

section \<open>Properties of the content cache\<close>

lemma hex_digit_mem: "n < 16 \<Longrightarrow> hex_digit n \<in> hexdigits"
  unfolding hex_digit_def hexdigits_def by (rule nth_mem) simp

lemma unat_and_15: "unat (x AND (15 :: 32 word)) < 16"
proof -
  have "unat (x AND 15) \<le> unat (15 :: 32 word)"
    by (rule word_and_le1 [THEN word_le_nat_alt [THEN iffD1]])
  then show ?thesis by simp
qed

lemma hex32_props: "length (hex32 x) = 8 \<and> set (hex32 x) \<subseteq> hexdigits"
  unfolding hex32_def by (simp add: hex_digit_mem [OF unat_and_15])

lemma sha_hex_props: "length (sha_hex st) = 64 \<and> set (sha_hex st) \<subseteq> hexdigits"
proof (induction st rule: sha_hex.induct)
  case (1 a b c d e f g h)
  show ?case
    using hex32_props [of a] hex32_props [of b] hex32_props [of c] hex32_props [of d]
      hex32_props [of e] hex32_props [of f] hex32_props [of g] hex32_props [of h]
    by simp
qed

lemma sha256_hexdigest_props:
  "length (sha256_hexdigest s) = 64 \<and> set (sha256_hexdigest s) \<subseteq> hexdigits"
  unfolding sha256_hexdigest_def by (rule sha_hex_props)

lemma sha256_hexdigest_hd:
  "sha256_hexdigest s @ r \<noteq> [] \<and> hd (sha256_hexdigest s @ r) \<noteq> CHR ''/''"
proof -
  obtain c cs where eq: "sha256_hexdigest s = c # cs"
    using sha256_hexdigest_props [of s] by (cases "sha256_hexdigest s") auto
  have "c \<in> hexdigits"
    using sha256_hexdigest_props [of s] unfolding eq by simp
  moreover have "CHR ''/'' \<notin> hexdigits"
    by (simp add: hexdigits_def)
  ultimately have "c \<noteq> CHR ''/''" by blast
  then show ?thesis by (simp add: eq)
qed

lemma path_join_images:
  "path_join root [''images'', sha256_hexdigest s @ r] =
     (if root = [] \<or> last root = CHR ''/'' then root else root @ ''/'')
     @ ''images/'' @ sha256_hexdigest s @ r"
  using sha256_hexdigest_hd [of s r] by (simp add: path_join_def path_join2_def)

lemma path_join_cached:
  "path_join root [''.cached'', sha256_hexdigest s @ r] =
     (if root = [] \<or> last root = CHR ''/'' then root else root @ ''/'')
     @ ''.cached/'' @ sha256_hexdigest s @ r"
  using sha256_hexdigest_hd [of s r] by (simp add: path_join_def path_join2_def)

lemma splitext_ext_no_slash: "CHR ''/'' \<notin> set (snd (splitext p))"
proof -
  have a: "CHR ''/'' \<notin> set (drop (nat (rfind CHR ''/'' p + 1)) p)"
  proof (cases "CHR ''/'' \<in> set p")
    case False
    then show ?thesis by (auto dest: in_set_dropD)
  next
    case True
    have tw: "CHR ''/'' \<notin> set (takeWhile (\<lambda>c. c \<noteq> CHR ''/'') (rev p))"
      by (auto dest: set_takeWhileD)
    have len: "length (takeWhile (\<lambda>c. c \<noteq> CHR ''/'') (rev p)) \<le> length p"
      using length_takeWhile_le [of _ "rev p"] by simp
    have "drop (nat (rfind CHR ''/'' p + 1)) p
            = rev (take (length (takeWhile (\<lambda>c. c \<noteq> CHR ''/'') (rev p))) (rev p))"
      using True len by (simp add: rfind_def rev_drop [symmetric] take_rev nat_diff_distrib')
    also have "take (length (takeWhile (\<lambda>c. c \<noteq> CHR ''/'') (rev p))) (rev p)
                 = takeWhile (\<lambda>c. c \<noteq> CHR ''/'') (rev p)"
      by (metis append_eq_conv_conj takeWhile_dropWhile_id)
    finally show ?thesis using tw by simp
  qed
  have b: "CHR ''/'' \<notin> set (drop (nat (rfind CHR ''.'' p)) p)"
    if "rfind CHR ''/'' p < rfind CHR ''.'' p"
  proof -
    have "rfind CHR ''/'' p + 1 \<ge> 0"
      using length_takeWhile_le [of "\<lambda>c. c \<noteq> CHR ''/''" "rev p"] by (simp add: rfind_def)
    with that have "nat (rfind CHR ''.'' p)
        = nat (rfind CHR ''.'' p - (rfind CHR ''/'' p + 1)) + nat (rfind CHR ''/'' p + 1)"
      by simp
    then have "drop (nat (rfind CHR ''.'' p)) p
        = drop (nat (rfind CHR ''.'' p - (rfind CHR ''/'' p + 1)))
            (drop (nat (rfind CHR ''/'' p + 1)) p)"
      by (simp only: drop_drop)
    then have "set (drop (nat (rfind CHR ''.'' p)) p)
        \<subseteq> set (drop (nat (rfind CHR ''/'' p + 1)) p)"
      by (simp only: set_drop_subset)
    with a show ?thesis by blast
  qed
  show ?thesis
    using b by (auto simp: splitext_def Let_def)
qed

lemma cache_name_no_slash:
  "sha256_hexdigest s @ snd (splitext p) \<noteq> []
   \<and> CHR ''/'' \<notin> set (sha256_hexdigest s @ snd (splitext p))"
proof -
  have "CHR ''/'' \<notin> hexdigits" by (simp add: hexdigits_def)
  with sha256_hexdigest_props [of s] have "CHR ''/'' \<notin> set (sha256_hexdigest s)" by blast
  with splitext_ext_no_slash [of p] sha256_hexdigest_hd [of s "snd (splitext p)"]
  show ?thesis by simp
qed

lemma page_name_no_slash:
  "sha256_hexdigest s @ ''.html'' \<noteq> [] \<and> CHR ''/'' \<notin> set (sha256_hexdigest s @ ''.html'')"
proof -
  have "CHR ''/'' \<notin> hexdigits" by (simp add: hexdigits_def)
  with sha256_hexdigest_props [of s] have "CHR ''/'' \<notin> set (sha256_hexdigest s)" by blast
  then show ?thesis by simp
qed

lemma path_join_two: "path_join root [a, b] = path_join (path_join root [a]) [b]"
  by (simp add: path_join_def)

lemma makedirs_out_cached:
  "makedirs ''out/.cached'' empty_world =
     (Inr (), empty_world\<lparr>dirs := {''out/.cached'', ''out''}\<rparr>)"
  by (simp add: makedirs_def makedirs_split_def posix_split_def rfind_def all_slashes_def
      rstrip_slash_def path_exists_def is_file_def is_dir_def mkdir_exist_ok_def parent_error_def
      empty_world_def Let_def)

text \<open>
  Claim C4, amended. \<open>compute_image_path\<close> is not free of I/O: it first calls
  \<open>os.makedirs\<close> on \<open>.cached\<close> under the root, which makes that directory together with
  every missing directory above it, and raises when that is not possible (a regular file
  is in the way). When the directory can be made, the pair returned depends on the URL and
  the root only: the file name is the hexadecimal SHA-256 digest of the URL followed by the
  extension of the URL's path, and the path is \<open>os.path.join(root, "images", name)\<close>, which
  is \<open>root + "/images/" + name\<close> for a non-empty root without a trailing slash. The call
  touches no file, sends no request and prints nothing; the directories that were there
  stay. A second call, in the world the first one left, returns the same pair and changes
  nothing more, and two calls that both return, in any two worlds, return the same pair.
\<close>

theorem compute_image_path_result:
  "(makedirs (path_join root [''.cached'']) w = (Inr (), w1) \<longrightarrow>
      compute_image_path L url root w =
        (Inr (path_join root [''images'', sha256_hexdigest url @ snd (splitext (urlparse_path L url))],
              sha256_hexdigest url @ snd (splitext (urlparse_path L url))), w1)
      \<and> (root \<noteq> [] \<and> last root \<noteq> CHR ''/'' \<longrightarrow>
           path_join root [''images'', sha256_hexdigest url @ snd (splitext (urlparse_path L url))] =
             root @ ''/images/'' @ sha256_hexdigest url @ snd (splitext (urlparse_path L url)))
      \<and> files w1 = files w \<and> requests w1 = requests w \<and> stdout w1 = stdout w
      \<and> dirs w \<subseteq> dirs w1 \<and> is_dir (path_join root [''.cached'']) w1
      \<and> compute_image_path L url root w1 =
          (Inr (path_join root [''images'', sha256_hexdigest url @ snd (splitext (urlparse_path L url))],
                sha256_hexdigest url @ snd (splitext (urlparse_path L url))), w1))
   \<and> (fst (makedirs (path_join root [''.cached'']) w) = Inl e \<longrightarrow>
        compute_image_path L url root w = (Inl e, snd (makedirs (path_join root [''.cached'']) w)))
   \<and> (fst (compute_image_path L url root w) = Inr p
        \<and> fst (compute_image_path L url root w') = Inr p' \<longrightarrow> p = p')"
proof (intro conjI impI)
  assume m: "makedirs (path_join root [''.cached'']) w = (Inr (), w1)"
  from m show "compute_image_path L url root w =
        (Inr (path_join root [''images'', sha256_hexdigest url @ snd (splitext (urlparse_path L url))],
              sha256_hexdigest url @ snd (splitext (urlparse_path L url))), w1)"
    by (simp add: compute_image_path_def Let_def)
  from makedirs_frame [OF m]
  show "files w1 = files w" and "requests w1 = requests w" and "stdout w1 = stdout w"
    and "dirs w \<subseteq> dirs w1" and "is_dir (path_join root [''.cached'']) w1"
    by simp_all
  from makedirs_ready_noop [OF makedirs_makes_ready [OF m]]
  show "compute_image_path L url root w1 =
          (Inr (path_join root [''images'', sha256_hexdigest url @ snd (splitext (urlparse_path L url))],
                sha256_hexdigest url @ snd (splitext (urlparse_path L url))), w1)"
    by (simp add: compute_image_path_def Let_def)
next
  assume "root \<noteq> [] \<and> last root \<noteq> CHR ''/''"
  then show "path_join root [''images'', sha256_hexdigest url @ snd (splitext (urlparse_path L url))] =
             root @ ''/images/'' @ sha256_hexdigest url @ snd (splitext (urlparse_path L url))"
    by (simp add: path_join_images)
next
  assume "fst (makedirs (path_join root [''.cached'']) w) = Inl e"
  then show "compute_image_path L url root w = (Inl e, snd (makedirs (path_join root [''.cached'']) w))"
    by (cases "makedirs (path_join root [''.cached'']) w") (simp add: compute_image_path_def Let_def)
next
  assume "fst (compute_image_path L url root w) = Inr p
        \<and> fst (compute_image_path L url root w') = Inr p'"
  then show "p = p'"
    by (auto simp: compute_image_path_def Let_def split: prod.splits sum.splits)
qed

theorem compute_image_path_result_witness:
  "makedirs (path_join ''out'' [''.cached'']) empty_world
     = (Inr (), empty_world\<lparr>dirs := {''out/.cached'', ''out''}\<rparr>)
   \<and> ''out'' \<noteq> [] \<and> last ''out'' \<noteq> CHR ''/''
   \<and> compute_image_path example_lib ''http://a.test/img/b.png'' ''out'' empty_world =
       (Inr (''out/images/'' @ sha256_hexdigest ''http://a.test/img/b.png'' @ ''.png'',
             sha256_hexdigest ''http://a.test/img/b.png'' @ ''.png''),
        empty_world\<lparr>dirs := {''out/.cached'', ''out''}\<rparr>)"
proof -
  have ext: "snd (splitext (urlparse_path example_lib ''http://a.test/img/b.png'')) = ''.png''"
    by (simp add: example_lib_def splitext_def rfind_def Let_def)
  have m: "makedirs (path_join ''out'' [''.cached'']) empty_world
             = (Inr (), empty_world\<lparr>dirs := {''out/.cached'', ''out''}\<rparr>)"
    using makedirs_out_cached by (simp add: path_join_def path_join2_def)
  have r: "''out'' \<noteq> [] \<and> last ''out'' \<noteq> CHR ''/''"
    by simp
  from compute_image_path_result
         [of "''out''" empty_world "empty_world\<lparr>dirs := {''out/.cached'', ''out''}\<rparr>"
             example_lib "''http://a.test/img/b.png''"] m r
  have "compute_image_path example_lib ''http://a.test/img/b.png'' ''out'' empty_world =
        (Inr (path_join ''out'' [''images'', sha256_hexdigest ''http://a.test/img/b.png''
                @ snd (splitext (urlparse_path example_lib ''http://a.test/img/b.png''))],
              sha256_hexdigest ''http://a.test/img/b.png''
                @ snd (splitext (urlparse_path example_lib ''http://a.test/img/b.png''))),
         empty_world\<lparr>dirs := {''out/.cached'', ''out''}\<rparr>)"
    and "path_join ''out'' [''images'', sha256_hexdigest ''http://a.test/img/b.png''
                @ snd (splitext (urlparse_path example_lib ''http://a.test/img/b.png''))] =
         ''out'' @ ''/images/'' @ sha256_hexdigest ''http://a.test/img/b.png''
                @ snd (splitext (urlparse_path example_lib ''http://a.test/img/b.png''))"
    by blast+
  then show ?thesis
    using m r unfolding ext by simp
qed

theorem compute_image_path_makes_directory:
  "dirs empty_world = {}
   \<and> dirs (snd (compute_image_path example_lib ''http://a.test/img/b.png'' ''out'' empty_world))
       = {''out/.cached'', ''out''}
   \<and> fst (compute_image_path example_lib ''http://a.test/img/b.png'' ''out''
            (store_file ''out'' ''text'' empty_world)) = Inl NotADirectoryError"
proof -
  have m: "makedirs (path_join ''out'' [''.cached'']) empty_world
             = (Inr (), empty_world\<lparr>dirs := {''out/.cached'', ''out''}\<rparr>)"
    using makedirs_out_cached by (simp add: path_join_def path_join2_def)
  have f: "makedirs (path_join ''out'' [''.cached'']) (store_file ''out'' ''text'' empty_world)
             = (Inl NotADirectoryError, store_file ''out'' ''text'' empty_world)"
    by (simp add: makedirs_def makedirs_split_def posix_split_def rfind_def all_slashes_def
      rstrip_slash_def path_exists_def is_file_def is_dir_def mkdir_exist_ok_def parent_error_def
      empty_world_def store_file_def Let_def path_join_def path_join2_def)
  show ?thesis
    using m f by (simp add: compute_image_path_def Let_def empty_world_def)
qed

section \<open>Properties of the site strategy and the extractor\<close>

text \<open>
  Claim C8. The three factory functions together pick the triple of the first identifier
  of the ordered table that occurs in the URL, and the generic triple when none occurs.
\<close>

theorem strategy_first_match:
  "(create_extractor url, create_transformer url, create_renderer url) = first_match_triple url"
  by (simp add: create_extractor_def create_transformer_def create_renderer_def
      first_match_triple_def site_table_def)

lemma strategy_generic:
  "\<not> contains ''untools.co'' url \<Longrightarrow> \<not> contains ''unintendedconsequenc'' url \<Longrightarrow>
   \<not> contains ''blog.acolyer.org'' url \<Longrightarrow>
   first_match_triple url = (Extractor, Transformer, Renderer)"
  by (simp add: first_match_triple_def site_table_def)

text \<open>
  Claim C9, amended. For a URL that contains no known site identifier the generic
  extractor's \<open>get_title\<close> looks nothing up and returns \<open>None\<close> for every page, and the
  article file starts with the heading line \<open>== None\<close>.
\<close>

theorem generic_get_title_none:
  "\<not> contains ''untools.co'' url \<and> \<not> contains ''unintendedconsequenc'' url
     \<and> \<not> contains ''blog.acolyer.org'' url \<longrightarrow>
   get_title (create_extractor url) bs = Inr None
   \<and> write_article L url root out bs (store_file out [] w) =
       (Inl AttributeError,
        append_file out
          (''link:'' @ url @ ''[original article] ''
           @ (case get_published bs of Some d \<Rightarrow> ''published on '' @ d | None \<Rightarrow> []) @ nl @ nl)
          (append_file out (''== None'' @ nl @ nl) (store_file out [] w)))"
  by (simp add: create_extractor_def get_title_def write_article_def get_metadata_def
      cleanup_def base_cleanup_def remove_tag_def fmt_def Let_def)

lemma example_url_generic:
  "\<not> contains ''untools.co'' ''http://example.org/post''
   \<and> \<not> contains ''unintendedconsequenc'' ''http://example.org/post''
   \<and> \<not> contains ''blog.acolyer.org'' ''http://example.org/post''"
  by simp

theorem generic_get_title_none_witness:
  "\<not> contains ''untools.co'' ''http://example.org/post''
   \<and> \<not> contains ''unintendedconsequenc'' ''http://example.org/post''
   \<and> \<not> contains ''blog.acolyer.org'' ''http://example.org/post''
   \<and> get_title (create_extractor ''http://example.org/post'')
         (Tag ''[document]'' [] [Tag ''h1'' [] [Text ''A heading'']]) = Inr None"
  using generic_get_title_none
          [of "''http://example.org/post''" "Tag ''[document]'' [] [Tag ''h1'' [] [Text ''A heading'']]"]
        example_url_generic
  by blast

theorem generic_get_title_no_lookup_error:
  "bs_find (named ''h1'') (Tag ''[document]'' [] [Tag ''p'' [] [Text ''no heading'']]) = None
   \<and> get_title (create_extractor ''http://example.org/post'')
         (Tag ''[document]'' [] [Tag ''p'' [] [Text ''no heading'']]) = Inr None"
  using example_url_generic
  by (simp add: create_extractor_def get_title_def bs_find_def contents_def named_def node_name_def)

section \<open>Properties of the image pass\<close>

lemma dict_set_map_of: "map_of (dict_set k v m) = (map_of m)(k \<mapsto> v)"
  by (induction m) (auto simp: fun_eq_iff)

lemma dict_set_keys: "set (map fst (dict_set k v m)) = insert k (set (map fst m))"
proof (induction m)
  case Nil
  show ?case by simp
next
  case (Cons p m)
  obtain k' v' where p: "p = (k', v')" by (cases p)
  show ?case
    using Cons.IH by (cases "k = k'") (simp_all add: p insert_commute)
qed

lemma split_on_nonempty: "split_on c s \<noteq> []"
  by (induction s) (auto split: list.splits)

lemma collect_srcs_ok:
  "list_all (\<lambda>s. 2 \<le> length (split_on CHR '' '' (strip s))) srcs \<Longrightarrow>
   \<exists>imgs'. collect_srcs srcs imgs = Inr imgs'
     \<and> map_of imgs' =
         map_of imgs ++ map_of (rev (map (\<lambda>s. (split_on CHR '' '' (strip s) ! 1,
                                                split_on CHR '' '' (strip s) ! 0)) srcs))
     \<and> set (map fst imgs') = set (map fst imgs) \<union> (\<lambda>s. split_on CHR '' '' (strip s) ! 1) ` set srcs"
proof (induction srcs arbitrary: imgs)
  case Nil
  then show ?case by simp
next
  case (Cons s srcs)
  from Cons.prems obtain u d r where ss: "split_on CHR '' '' (strip s) = u # d # r"
    by (cases "split_on CHR '' '' (strip s)"; cases "tl (split_on CHR '' '' (strip s))") auto
  from Cons.prems have rest: "list_all (\<lambda>s. 2 \<le> length (split_on CHR '' '' (strip s))) srcs"
    by simp
  from Cons.IH [OF rest, of "dict_set d u imgs"] obtain imgs' where
    r: "collect_srcs srcs (dict_set d u imgs) = Inr imgs'"
    and m: "map_of imgs' = map_of (dict_set d u imgs)
              ++ map_of (rev (map (\<lambda>s. (split_on CHR '' '' (strip s) ! 1,
                                          split_on CHR '' '' (strip s) ! 0)) srcs))"
    and k: "set (map fst imgs') = set (map fst (dict_set d u imgs))
              \<union> (\<lambda>s. split_on CHR '' '' (strip s) ! 1) ` set srcs"
    by blast
  have "collect_srcs (s # srcs) imgs = Inr imgs'"
    using r by (simp add: ss)
  moreover have "map_of imgs' = map_of imgs
      ++ map_of (rev (map (\<lambda>s. (split_on CHR '' '' (strip s) ! 1,
                                  split_on CHR '' '' (strip s) ! 0)) (s # srcs)))"
    unfolding m dict_set_map_of by (simp add: ss fun_eq_iff map_add_def split: option.splits)
  moreover have "set (map fst imgs') = set (map fst imgs)
      \<union> (\<lambda>s. split_on CHR '' '' (strip s) ! 1) ` set (s # srcs)"
    unfolding k dict_set_keys by (simp add: ss)
  ultimately show ?case by blast
qed

lemma sort_hd_least:
  fixes xs :: "'a::linorder list"
  assumes "sort xs = y # ys"
  shows "y \<in> set xs \<and> (\<forall>x \<in> set xs. y \<le> x)"
proof -
  have s: "set (y # ys) = set xs" and o: "sorted (y # ys)"
    using assms [symmetric] by simp_all
  from s have "y \<in> set xs" by auto
  moreover from o s have "\<forall>x \<in> set xs. y \<le> x" by auto
  ultimately show ?thesis by blast
qed

lemma collect_srcs_bad:
  "\<not> list_all (\<lambda>s. 2 \<le> length (split_on CHR '' '' (strip s))) srcs \<Longrightarrow>
   collect_srcs srcs imgs = Inl IndexError"
proof (induction srcs arbitrary: imgs)
  case Nil
  then show ?case by simp
next
  case (Cons s srcs)
  show ?case
  proof (cases "2 \<le> length (split_on CHR '' '' (strip s))")
    case True
    then obtain u d r where ss: "split_on CHR '' '' (strip s) = u # d # r"
      by (cases "split_on CHR '' '' (strip s)"; cases "tl (split_on CHR '' '' (strip s))") auto
    from Cons.prems True have "\<not> list_all (\<lambda>s. 2 \<le> length (split_on CHR '' '' (strip s))) srcs"
      by simp
    from Cons.IH [OF this] show ?thesis by (simp add: ss)
  next
    case False
    then show ?thesis
      by (cases "split_on CHR '' '' (strip s)"; cases "tl (split_on CHR '' '' (strip s))") auto
  qed
qed

text \<open>
  Claim C1, amended. Take an image element with \<open>alt\<close>, \<open>src\<close> and \<open>srcset\<close>. When each
  comma-separated entry of the \<open>srcset\<close> has, after stripping, at least two tokens separated
  by single blanks, the pass takes the descriptor that is least in the lexicographic order
  of strings; the source becomes the URL of the last entry with that descriptor; a \<open>w\<close> in
  the descriptor replaces the width by the descriptor without its \<open>w\<close>s, an \<open>h\<close> replaces
  the height by the descriptor without its \<open>h\<close>s. The element is replaced by the text
  \<open>image:<name>[<alt>,<width>,<height>]\<close> with these values, where the name is what
  \<open>download_image\<close> returns for the chosen URL joined to the page's URL. When some entry
  has fewer than two tokens (an entry without descriptor), the pass raises \<open>IndexError\<close>
  before anything is downloaded or replaced.
\<close>

theorem srcset_selects_smallest_descriptor:
  assumes alt: "map_of a ''alt'' = Some alt" and src: "map_of a ''src'' = Some src"
    and srcset: "map_of a ''srcset'' = Some srcset"
  shows "(well_formed_srcset srcset \<longrightarrow>
      (\<exists>largest u wd ht.
          largest \<in> snd ` set (srcset_candidates srcset)
        \<and> (\<forall>d \<in> snd ` set (srcset_candidates srcset). largest \<le> d)
        \<and> map_of (rev (map (\<lambda>(u, d). (d, u)) (srcset_candidates srcset))) largest = Some u
        \<and> wd = (if CHR ''w'' \<in> set largest then filter (\<lambda>c. c \<noteq> CHR ''w'') largest
                 else (case map_of a ''width'' of None \<Rightarrow> [] | Some v \<Rightarrow> v))
        \<and> ht = (if CHR ''h'' \<in> set largest then filter (\<lambda>c. c \<noteq> CHR ''h'') largest
                 else (case map_of a ''height'' of None \<Rightarrow> [] | Some v \<Rightarrow> v))
        \<and> img_fields a = Inr (alt, wd, ht, u)
        \<and> replace_img L cfg a w =
            (case download_image L (urljoin L (src_url cfg) u) (output_dir cfg) w of
               (Inl e, w') \<Rightarrow> (Inl e, w')
             | (Inr image_name, w') \<Rightarrow>
                 (Inr (Text (''image:'' @ image_name @ ''['' @ alt @ '','' @ wd @ '','' @ ht @ '']'')), w'))
        \<and> transform_img L cfg (Tag n b [Tag ''img'' a []]) w =
            (case download_image L (urljoin L (src_url cfg) u) (output_dir cfg) w of
               (Inl e, w') \<Rightarrow> (Inl e, w')
             | (Inr image_name, w') \<Rightarrow>
                 (Inr (Tag n b
                    [Text (''image:'' @ image_name @ ''['' @ alt @ '','' @ wd @ '','' @ ht @ '']'')]), w'))))
    \<and> (\<not> well_formed_srcset srcset \<longrightarrow>
          img_fields a = Inl IndexError
        \<and> replace_img L cfg a w = (Inl IndexError, w)
        \<and> replace_imgs L cfg (Tag ''img'' a cs) w = (Inl IndexError, w)
        \<and> transform_img L cfg (Tag n b (Tag ''img'' a cs # rest)) w = (Inl IndexError, w))"
proof (intro conjI impI)
  assume wf: "well_formed_srcset srcset"
  let ?srcs = "split_on CHR '','' srcset"
  let ?dict = "map (\<lambda>s. (split_on CHR '' '' (strip s) ! 1, split_on CHR '' '' (strip s) ! 0)) ?srcs"
  have swap: "map (\<lambda>(u, d). (d, u)) (srcset_candidates srcset) = ?dict"
    by (simp add: srcset_candidates_def)
  have descr: "snd ` set (srcset_candidates srcset) = (\<lambda>s. split_on CHR '' '' (strip s) ! 1) ` set ?srcs"
    by (simp add: srcset_candidates_def image_image)
  from wf obtain imgs where
    c: "collect_srcs ?srcs [] = Inr imgs"
    and m: "map_of imgs = map_of (rev ?dict)"
    and k: "set (map fst imgs) = (\<lambda>s. split_on CHR '' '' (strip s) ! 1) ` set ?srcs"
    using collect_srcs_ok [of ?srcs "[]"] unfolding well_formed_srcset_def by auto
  have "set (map fst imgs) \<noteq> {}"
    unfolding k using split_on_nonempty [of "CHR '',''" srcset] by simp
  then have "sort (map fst imgs) \<noteq> []"
    by (metis set_empty set_sort)
  then obtain largest rest' where s: "sort (map fst imgs) = largest # rest'"
    by (cases "sort (map fst imgs)") auto
  from sort_hd_least [OF s] have mem: "largest \<in> set (map fst imgs)"
    and least: "\<forall>d \<in> set (map fst imgs). largest \<le> d"
    by blast+
  from mem obtain u where u: "map_of imgs largest = Some u"
    by (cases "map_of imgs largest") (auto simp: map_of_eq_None_iff)
  define wd where "wd = (if CHR ''w'' \<in> set largest then filter (\<lambda>c. c \<noteq> CHR ''w'') largest
                 else (case map_of a ''width'' of None \<Rightarrow> [] | Some v \<Rightarrow> v))"
  define ht where "ht = (if CHR ''h'' \<in> set largest then filter (\<lambda>c. c \<noteq> CHR ''h'') largest
                 else (case map_of a ''height'' of None \<Rightarrow> [] | Some v \<Rightarrow> v))"
  have f: "img_fields a = Inr (alt, wd, ht, u)"
    by (simp add: img_fields_def alt src srcset c s u Let_def wd_def ht_def)
  have r: "replace_img L cfg a w =
            (case download_image L (urljoin L (src_url cfg) u) (output_dir cfg) w of
               (Inl e, w') \<Rightarrow> (Inl e, w')
             | (Inr image_name, w') \<Rightarrow>
                 (Inr (Text (''image:'' @ image_name @ ''['' @ alt @ '','' @ wd @ '','' @ ht @ '']'')), w'))"
    by (simp add: replace_img_def f)
  have t: "transform_img L cfg (Tag n b [Tag ''img'' a []]) w =
            (case download_image L (urljoin L (src_url cfg) u) (output_dir cfg) w of
               (Inl e, w') \<Rightarrow> (Inl e, w')
             | (Inr image_name, w') \<Rightarrow>
                 (Inr (Tag n b
                    [Text (''image:'' @ image_name @ ''['' @ alt @ '','' @ wd @ '','' @ ht @ '']'')]), w'))"
    unfolding transform_img_def
    by (simp add: r split: prod.splits sum.splits)
  have 1: "largest \<in> snd ` set (srcset_candidates srcset)"
    using mem unfolding k descr .
  have 2: "\<forall>d \<in> snd ` set (srcset_candidates srcset). largest \<le> d"
    using least unfolding k descr .
  have 3: "map_of (rev (map (\<lambda>(u, d). (d, u)) (srcset_candidates srcset))) largest = Some u"
    unfolding swap using u m by simp
  from 1 2 3 wd_def ht_def f r t
  show "\<exists>largest u wd ht.
          largest \<in> snd ` set (srcset_candidates srcset)
        \<and> (\<forall>d \<in> snd ` set (srcset_candidates srcset). largest \<le> d)
        \<and> map_of (rev (map (\<lambda>(u, d). (d, u)) (srcset_candidates srcset))) largest = Some u
        \<and> wd = (if CHR ''w'' \<in> set largest then filter (\<lambda>c. c \<noteq> CHR ''w'') largest
                 else (case map_of a ''width'' of None \<Rightarrow> [] | Some v \<Rightarrow> v))
        \<and> ht = (if CHR ''h'' \<in> set largest then filter (\<lambda>c. c \<noteq> CHR ''h'') largest
                 else (case map_of a ''height'' of None \<Rightarrow> [] | Some v \<Rightarrow> v))
        \<and> img_fields a = Inr (alt, wd, ht, u)
        \<and> replace_img L cfg a w =
            (case download_image L (urljoin L (src_url cfg) u) (output_dir cfg) w of
               (Inl e, w') \<Rightarrow> (Inl e, w')
             | (Inr image_name, w') \<Rightarrow>
                 (Inr (Text (''image:'' @ image_name @ ''['' @ alt @ '','' @ wd @ '','' @ ht @ '']'')), w'))
        \<and> transform_img L cfg (Tag n b [Tag ''img'' a []]) w =
            (case download_image L (urljoin L (src_url cfg) u) (output_dir cfg) w of
               (Inl e, w') \<Rightarrow> (Inl e, w')
             | (Inr image_name, w') \<Rightarrow>
                 (Inr (Tag n b
                    [Text (''image:'' @ image_name @ ''['' @ alt @ '','' @ wd @ '','' @ ht @ '']'')]), w'))"
    by blast
next
  assume "\<not> well_formed_srcset srcset"
  then have c: "collect_srcs (split_on CHR '','' srcset) [] = Inl IndexError"
    unfolding well_formed_srcset_def by (rule collect_srcs_bad)
  show f: "img_fields a = Inl IndexError"
    by (simp add: img_fields_def alt src srcset c Let_def)
  show r: "replace_img L cfg a w = (Inl IndexError, w)"
    by (simp add: replace_img_def f)
  show i: "replace_imgs L cfg (Tag ''img'' a cs) w = (Inl IndexError, w)"
    by (simp add: r)
  show "transform_img L cfg (Tag n b (Tag ''img'' a cs # rest)) w = (Inl IndexError, w)"
    by (simp add: transform_img_def r)
qed

lemma example_srcset_fields:
  "img_fields [(''alt'', ''pic''), (''src'', ''small.png''),
               (''srcset'', ''a.png 320w, b.png 640w, c.png 1024w'')]
     = Inr (''pic'', ''1024'', [], ''c.png'')"
  by code_simp

lemma example_srcset_candidates:
  "srcset_candidates ''a.png 320w, b.png 640w, c.png 1024w''
     = [(''a.png'', ''320w''), (''b.png'', ''640w''), (''c.png'', ''1024w'')]"
  by code_simp

theorem srcset_selects_smallest_descriptor_witness:
  "well_formed_srcset ''a.png 320w, b.png 640w, c.png 1024w''
   \<and> (\<exists>largest u wd ht.
         largest \<in> snd ` set (srcset_candidates ''a.png 320w, b.png 640w, c.png 1024w'')
       \<and> (\<forall>d \<in> snd ` set (srcset_candidates ''a.png 320w, b.png 640w, c.png 1024w''). largest \<le> d)
       \<and> img_fields [(''alt'', ''pic''), (''src'', ''small.png''),
                      (''srcset'', ''a.png 320w, b.png 640w, c.png 1024w'')] =
           Inr (''pic'', wd, ht, u))
   \<and> \<not> well_formed_srcset ''a.png 2x, b.png''
   \<and> transform_img example_lib \<lparr>src_url = ''http://a.test/p'', output_dir = ''out''\<rparr>
        (Tag ''div'' []
           [Tag ''img'' [(''alt'', ''pic''), (''src'', ''b.png''), (''srcset'', ''a.png 2x, b.png'')] []])
        empty_world
       = (Inl IndexError, empty_world)"
proof -
  let ?a = "[(''alt'', ''pic''), (''src'', ''small.png''),
             (''srcset'', ''a.png 320w, b.png 640w, c.png 1024w'')]"
  let ?b = "[(''alt'', ''pic''), (''src'', ''b.png''), (''srcset'', ''a.png 2x, b.png'')]"
  have wf: "well_formed_srcset ''a.png 320w, b.png 640w, c.png 1024w''"
    by code_simp
  have nwf: "\<not> well_formed_srcset ''a.png 2x, b.png''"
    by code_simp
  have 1: "map_of ?a ''alt'' = Some ''pic''" and 2: "map_of ?a ''src'' = Some ''small.png''"
    and 3: "map_of ?a ''srcset'' = Some ''a.png 320w, b.png 640w, c.png 1024w''"
    by simp_all
  have 4: "map_of ?b ''alt'' = Some ''pic''" and 5: "map_of ?b ''src'' = Some ''b.png''"
    and 6: "map_of ?b ''srcset'' = Some ''a.png 2x, b.png''"
    by simp_all
  have "\<exists>largest u wd ht.
         largest \<in> snd ` set (srcset_candidates ''a.png 320w, b.png 640w, c.png 1024w'')
       \<and> (\<forall>d \<in> snd ` set (srcset_candidates ''a.png 320w, b.png 640w, c.png 1024w''). largest \<le> d)
       \<and> img_fields ?a = Inr (''pic'', wd, ht, u)"
    using srcset_selects_smallest_descriptor
            [OF 1 2 3, of example_lib "\<lparr>src_url = ''http://a.test/p'', output_dir = ''out''\<rparr>"
               empty_world "''div''" "[]" "[]" "[]"] wf
    by blast
  moreover have "transform_img example_lib \<lparr>src_url = ''http://a.test/p'', output_dir = ''out''\<rparr>
        (Tag ''div'' [] [Tag ''img'' ?b []]) empty_world = (Inl IndexError, empty_world)"
    using srcset_selects_smallest_descriptor
            [OF 4 5 6, of example_lib "\<lparr>src_url = ''http://a.test/p'', output_dir = ''out''\<rparr>"
               empty_world "''div''" "[]" "[]" "[]"] nwf
    by blast
  ultimately show ?thesis using wf nwf by blast
qed

theorem srcset_without_descriptor_raises:
  "map_of [(''alt'', ''pic''), (''src'', ''b.png''), (''srcset'', ''a.png 2x, b.png'')] ''srcset''
     = Some ''a.png 2x, b.png''
   \<and> img_fields [(''alt'', ''pic''), (''src'', ''b.png''), (''srcset'', ''a.png 2x, b.png'')]
       = Inl IndexError"
  by code_simp

section \<open>Cache hits, cache misses and fetch failures\<close>

lemma read_newlines_no_cr: "CHR 0x0D \<notin> set (read_newlines cr s)"
  by (induction s arbitrary: cr) auto

lemma read_newlines_id: "CHR 0x0D \<notin> set s \<Longrightarrow> read_newlines False s = s"
  by (induction s) auto

lemma universal_newlines_id: "CHR 0x0D \<notin> set s \<Longrightarrow> universal_newlines s = s"
  by (simp add: universal_newlines_def read_newlines_id)

lemma universal_newlines_idem: "universal_newlines (universal_newlines s) = universal_newlines s"
  using read_newlines_no_cr [of False s] by (simp add: universal_newlines_def read_newlines_id)

lemma is_dir_cong: "dirs w' = dirs w \<Longrightarrow> is_dir p w' = is_dir p w"
  by (simp add: is_dir_def)

lemma path_exists_cong:
  "dirs w' = dirs w \<Longrightarrow> dom (files w') = dom (files w) \<Longrightarrow> path_exists p w' = path_exists p w"
  by (simp add: path_exists_def is_dir_def is_file_def)

lemma open_error_cong:
  "dirs w' = dirs w \<Longrightarrow> dom (files w') = dom (files w) \<Longrightarrow> open_error p w' = open_error p w"
proof -
  assume a: "dirs w' = dirs w" "dom (files w') = dom (files w)"
  have d: "is_dir q w' = is_dir q w" for q
    using a by (simp add: is_dir_def)
  have f: "is_file q w' = is_file q w" for q
    using a by (simp add: is_file_def)
  show ?thesis
    by (simp add: open_error_def parent_error_def d f Let_def cong: if_cong)
qed

lemma page_cache_open:
  assumes "is_dir (path_join root [''.cached'']) w"
    and "\<not> path_exists (page_cache_path url root) w"
  shows "open_error (page_cache_path url root) w = None"
proof -
  have "\<not> is_dir (path_join (path_join root [''.cached'']) [sha256_hexdigest url @ ''.html'']) w"
    using assms(2) by (simp add: page_cache_path_def path_join_two path_exists_def)
  with assms(1) page_name_no_slash [of url] show ?thesis
    unfolding page_cache_path_def path_join_two by (intro open_error_join) simp_all
qed

lemma image_open:
  assumes "is_dir (path_join root [''images'']) w"
    and "\<not> path_exists (path_join root [''images'', sha256_hexdigest url @ snd (splitext p)]) w"
  shows "open_error (path_join root [''images'', sha256_hexdigest url @ snd (splitext p)]) w = None"
proof -
  have "\<not> is_dir (path_join (path_join root [''images'']) [sha256_hexdigest url @ snd (splitext p)]) w"
    using assms(2) by (simp add: path_join_two path_exists_def)
  with assms(1) cache_name_no_slash [of url p] show ?thesis
    unfolding path_join_two by (intro open_error_join) simp_all
qed

lemma load_hit:
  "files w p = Some c \<Longrightarrow> load_file_content L url p w = (Inr (universal_newlines c), w)"
  by (simp add: load_file_content_def path_exists_def is_file_def domI)

lemma load_miss_fail:
  "\<not> path_exists p w \<Longrightarrow> fst (http_get L url) \<noteq> 200 \<Longrightarrow>
   load_file_content L url p w =
     (Inl (SystemExit 1),
      print_line (''Cannot make request. Result: '' @ show_int (fst (http_get L url)))
        (w\<lparr>requests := requests w @ [url]\<rparr>))"
  by (cases "http_get L url") (simp add: load_file_content_def send_get_def)

lemma load_miss_write:
  "\<not> path_exists p w \<Longrightarrow> fst (http_get L url) = 200 \<Longrightarrow>
   load_file_content L url p w =
     (case open_error p w of
        Some e \<Rightarrow> (Inl e, w\<lparr>requests := requests w @ [url]\<rparr>)
      | None \<Rightarrow> (Inr (snd (http_get L url)),
                 store_file p (snd (http_get L url)) (w\<lparr>requests := requests w @ [url]\<rparr>)))"
  using open_error_cong [of "w\<lparr>requests := requests w @ [url]\<rparr>" w p]
  by (cases "http_get L url")
    (simp add: load_file_content_def send_get_def write_file_def split: option.splits)

lemma download_image_after_makedirs:
  assumes "makedirs (path_join root [''.cached'']) w = (r, w1)"
  shows "download_image L url root w =
     (case r of
        Inl e \<Rightarrow> (Inl e, w1)
      | Inr _ \<Rightarrow>
         (let image_name = sha256_hexdigest url @ snd (splitext (urlparse_path L url));
              image_path = path_join root [''images'', image_name]
          in if path_exists image_path w1 then (Inr image_name, w1)
             else if fst (http_get L url) \<noteq> 200
             then (Inl (SystemExit 1),
                   print_line (''Cannot make request. Result: '' @ show_int (fst (http_get L url)))
                     (w1\<lparr>requests := requests w @ [url]\<rparr>))
             else (case open_error image_path w1 of
                     Some e \<Rightarrow> (Inl e, w1\<lparr>requests := requests w @ [url]\<rparr>)
                   | None \<Rightarrow> (Inr image_name,
                              store_file image_path (snd (http_get L url))
                                (w1\<lparr>requests := requests w @ [url]\<rparr>)))))"
proof -
  from makedirs_frame [OF assms] have rq: "requests w1 = requests w" by simp
  show ?thesis
    using assms open_error_cong [of "w1\<lparr>requests := requests w @ [url]\<rparr>" w1]
    by (cases r; cases "http_get L url")
      (simp_all add: download_image_def compute_image_path_def Let_def send_get_def write_file_def rq
        split: option.splits)
qed

lemma download_image_again:
  assumes "download_image L url root w = (Inr n, w')"
  shows "download_image L url root w' = (Inr n, w')"
proof -
  let ?c = "path_join root [''.cached'']"
  let ?n = "sha256_hexdigest url @ snd (splitext (urlparse_path L url))"
  let ?p = "path_join root [''images'', ?n]"
  obtain r w1 where m: "makedirs ?c w = (r, w1)" by (cases "makedirs ?c w")
  from assms download_image_after_makedirs [OF m, of L url] have r: "r = Inr ()"
    by (cases r) auto
  note d = download_image_after_makedirs [OF m, of L url, unfolded r]
  from makedirs_makes_ready [OF m [unfolded r]] have rdy: "dir_ready ?c w1" .
  from assms d have n: "n = ?n"
    by (auto simp: Let_def split: if_splits option.splits)
  from assms d have w': "dirs w' = dirs w1 \<and> dom (files w1) \<subseteq> dom (files w') \<and> path_exists ?p w'"
    by (auto simp: Let_def store_file_def path_exists_def is_file_def is_dir_def
        split: if_splits option.splits)
  with rdy have "dir_ready ?c w'"
    by (intro dir_ready_mono [of ?c w1 w']) simp_all
  from makedirs_ready_noop [OF this] have m': "makedirs ?c w' = (Inr (), w')" .
  from download_image_after_makedirs [OF m', of L url] w' n show ?thesis
    by (simp add: Let_def)
qed

lemma load_again:
  assumes "load_file_content L url p w = (Inr c, w')"
  shows "load_file_content L url p w' = (Inr (universal_newlines c), w')"
proof (cases "path_exists p w")
  case True
  with assms obtain stored where "files w p = Some stored" "c = universal_newlines stored" "w' = w"
    by (auto simp: load_file_content_def split: option.splits)
  then show ?thesis
    by (simp add: load_hit universal_newlines_idem)
next
  case False
  with assms have "files w' p = Some c"
    by (auto simp: load_file_content_def send_get_def write_file_def store_file_def
        split: prod.splits if_splits option.splits)
  then show ?thesis by (rule load_hit)
qed

text \<open>
  Claim C3, amended. A page whose cache file exists is read from it, in text mode, and the
  world is unchanged, so no request is sent; what is returned is the stored text with
  every carriage return, and the newline that may follow it, read as one newline, which
  is the stored text itself when it holds no carriage return. An image whose target file
  exists gives its name with no request and no file written (the call makes the
  directory \<open>.cached\<close> when it is missing). On a miss answered with status 200 the body is
  stored under the cache path and returned provided the file can be opened for writing,
  which is so when the directory of the cache path exists; otherwise the error of
  \<open>open\<close> is raised after the request. After a successful call the same call again
  sends no request and leaves the world unchanged; for an image it returns the same
  name, for a page the text returned before, read once more in text mode.
\<close>

theorem cache_hit_skips_network:
  "(files w p = Some c \<longrightarrow>
        load_file_content L url p w = (Inr (universal_newlines c), w)
        \<and> (CHR 0x0D \<notin> set c \<longrightarrow> load_file_content L url p w = (Inr c, w)))
   \<and> (makedirs (path_join root [''.cached'']) w = (Inr (), w1)
        \<and> path_exists (path_join root [''images'',
              sha256_hexdigest url @ snd (splitext (urlparse_path L url))]) w1 \<longrightarrow>
        download_image L url root w =
          (Inr (sha256_hexdigest url @ snd (splitext (urlparse_path L url))), w1)
        \<and> requests w1 = requests w \<and> files w1 = files w)
   \<and> (\<not> path_exists p w \<and> http_get L url = (200, body) \<longrightarrow>
        load_file_content L url p w =
          (case open_error p w of
             Some e \<Rightarrow> (Inl e, w\<lparr>requests := requests w @ [url]\<rparr>)
           | None \<Rightarrow> (Inr body, store_file p body (w\<lparr>requests := requests w @ [url]\<rparr>))))
   \<and> (is_dir (path_join root [''.cached'']) w \<and> \<not> path_exists (page_cache_path url root) w
        \<and> http_get L url = (200, body) \<longrightarrow>
        load_file_content L url (page_cache_path url root) w =
          (Inr body, store_file (page_cache_path url root) body (w\<lparr>requests := requests w @ [url]\<rparr>)))
   \<and> (makedirs (path_join root [''.cached'']) w = (Inr (), w1)
        \<and> is_dir (path_join root [''images'']) w1
        \<and> \<not> path_exists (path_join root [''images'',
              sha256_hexdigest url @ snd (splitext (urlparse_path L url))]) w1
        \<and> http_get L url = (200, body) \<longrightarrow>
        download_image L url root w =
          (Inr (sha256_hexdigest url @ snd (splitext (urlparse_path L url))),
           store_file (path_join root [''images'',
                         sha256_hexdigest url @ snd (splitext (urlparse_path L url))]) body
             (w1\<lparr>requests := requests w @ [url]\<rparr>)))
   \<and> (load_file_content L url p w = (Inr c, w') \<longrightarrow>
        load_file_content L url p w' = (Inr (universal_newlines c), w'))
   \<and> (download_image L url root w = (Inr n, w') \<longrightarrow> download_image L url root w' = (Inr n, w'))"
proof (intro conjI impI)
  assume "files w p = Some c"
  then show "load_file_content L url p w = (Inr (universal_newlines c), w)"
    by (rule load_hit)
  then show "load_file_content L url p w = (Inr c, w)" if "CHR 0x0D \<notin> set c"
    using that by (simp add: universal_newlines_id)
next
  assume a: "makedirs (path_join root [''.cached'']) w = (Inr (), w1)
        \<and> path_exists (path_join root [''images'',
              sha256_hexdigest url @ snd (splitext (urlparse_path L url))]) w1"
  then show "download_image L url root w =
          (Inr (sha256_hexdigest url @ snd (splitext (urlparse_path L url))), w1)"
    using download_image_after_makedirs [of root w "Inr ()" w1 L url] by (simp add: Let_def)
  from a makedirs_frame [of "path_join root [''.cached'']" w "Inr ()" w1]
  show "requests w1 = requests w" and "files w1 = files w"
    by simp_all
next
  assume "\<not> path_exists p w \<and> http_get L url = (200, body)"
  then show "load_file_content L url p w =
          (case open_error p w of
             Some e \<Rightarrow> (Inl e, w\<lparr>requests := requests w @ [url]\<rparr>)
           | None \<Rightarrow> (Inr body, store_file p body (w\<lparr>requests := requests w @ [url]\<rparr>)))"
    using load_miss_write [of p w L url] by (simp split: option.splits)
next
  assume a: "is_dir (path_join root [''.cached'']) w \<and> \<not> path_exists (page_cache_path url root) w
        \<and> http_get L url = (200, body)"
  then have "open_error (page_cache_path url root) w = None"
    by (simp add: page_cache_open)
  with a show "load_file_content L url (page_cache_path url root) w =
          (Inr body, store_file (page_cache_path url root) body (w\<lparr>requests := requests w @ [url]\<rparr>))"
    using load_miss_write [of "page_cache_path url root" w L url] by simp
next
  assume a: "makedirs (path_join root [''.cached'']) w = (Inr (), w1)
        \<and> is_dir (path_join root [''images'']) w1
        \<and> \<not> path_exists (path_join root [''images'',
              sha256_hexdigest url @ snd (splitext (urlparse_path L url))]) w1
        \<and> http_get L url = (200, body)"
  then have "open_error (path_join root [''images'',
              sha256_hexdigest url @ snd (splitext (urlparse_path L url))]) w1 = None"
    by (simp add: image_open)
  with a show "download_image L url root w =
          (Inr (sha256_hexdigest url @ snd (splitext (urlparse_path L url))),
           store_file (path_join root [''images'',
                         sha256_hexdigest url @ snd (splitext (urlparse_path L url))]) body
             (w1\<lparr>requests := requests w @ [url]\<rparr>))"
    using download_image_after_makedirs [of root w "Inr ()" w1 L url] by (simp add: Let_def)
next
  assume "load_file_content L url p w = (Inr c, w')"
  then show "load_file_content L url p w' = (Inr (universal_newlines c), w')"
    by (rule load_again)
next
  assume "download_image L url root w = (Inr n, w')"
  then show "download_image L url root w' = (Inr n, w')"
    by (rule download_image_again)
qed

lemma example_image_ext:
  "snd (splitext (urlparse_path example_lib ''http://a.test/img/b.png'')) = ''.png''"
  by (simp add: example_lib_def splitext_def rfind_def Let_def)

lemma example_paths:
  "path_join ''out'' [''.cached''] = ''out/.cached''"
  "path_join ''out'' [''images''] = ''out/images''"
  "path_join ''out'' [''images'', sha256_hexdigest u @ r] = ''out/images/'' @ sha256_hexdigest u @ r"
  "page_cache_path u ''out'' = ''out/.cached/'' @ sha256_hexdigest u @ ''.html''"
  by (simp_all add: path_join_images path_join_cached page_cache_path_def)
    (simp_all add: path_join_def path_join2_def)

lemma ready_world_dirs:
  "dir_ready ''out/.cached'' ready_world"
  "is_dir ''out/.cached'' ready_world"
  "is_dir ''out/images'' ready_world"
  by (simp_all add: dir_ready_def makedirs_split_def posix_split_def rfind_def all_slashes_def
      rstrip_slash_def path_exists_def is_file_def is_dir_def ready_world_def Let_def)

lemma ready_world_no_image:
  "\<not> path_exists (''out/images/'' @ sha256_hexdigest u @ ''.png'') ready_world"
  by (simp add: path_exists_def is_file_def is_dir_def all_slashes_def rstrip_slash_def
      ready_world_def)

lemma ready_world_no_page:
  "\<not> path_exists (''out/.cached/'' @ sha256_hexdigest u @ ''.html'') ready_world"
  by (simp add: path_exists_def is_file_def is_dir_def all_slashes_def rstrip_slash_def
      ready_world_def)

lemma example_image_download:
  "download_image example_lib ''http://a.test/img/b.png'' ''out'' ready_world =
     (Inr (sha256_hexdigest ''http://a.test/img/b.png'' @ ''.png''),
      store_file (''out/images/'' @ sha256_hexdigest ''http://a.test/img/b.png'' @ ''.png'') ''body''
        (ready_world\<lparr>requests := [''http://a.test/img/b.png'']\<rparr>))"
proof -
  have m: "makedirs (path_join ''out'' [''.cached'']) ready_world = (Inr (), ready_world)"
    unfolding example_paths by (rule makedirs_ready_noop) (rule ready_world_dirs)
  have g: "http_get example_lib ''http://a.test/img/b.png'' = (200, ''body'')"
    by (simp add: example_lib_def)
  have o: "open_error (path_join ''out'' [''images'', sha256_hexdigest ''http://a.test/img/b.png''
             @ snd (splitext (urlparse_path example_lib ''http://a.test/img/b.png''))]) ready_world = None"
    using ready_world_dirs ready_world_no_image [of "''http://a.test/img/b.png''"]
    by (intro image_open) (simp_all add: example_paths example_image_ext)
  have r: "requests ready_world = []"
    by (simp add: ready_world_def)
  show ?thesis
    using download_image_after_makedirs [OF m, of example_lib "''http://a.test/img/b.png''"] o
      ready_world_no_image [of "''http://a.test/img/b.png''"]
    by (simp add: Let_def example_image_ext example_paths g r)
qed

theorem cache_hit_skips_network_witness:
  "files (store_file ''out/.cached/x.html'' ''<html>'' ready_world) ''out/.cached/x.html''
     = Some ''<html>''
   \<and> CHR 0x0D \<notin> set ''<html>''
   \<and> load_file_content example_lib ''https://blog.acolyer.org/good'' ''out/.cached/x.html''
         (store_file ''out/.cached/x.html'' ''<html>'' ready_world)
       = (Inr ''<html>'', store_file ''out/.cached/x.html'' ''<html>'' ready_world)
   \<and> \<not> path_exists ''out/.cached/x.html'' ready_world
   \<and> http_get example_lib ''https://blog.acolyer.org/good'' = (200, ''body'')
   \<and> open_error ''out/.cached/x.html'' ready_world = None
   \<and> load_file_content example_lib ''https://blog.acolyer.org/good'' ''out/.cached/x.html'' ready_world
       = (Inr ''body'',
          store_file ''out/.cached/x.html'' ''body''
            (ready_world\<lparr>requests := [''https://blog.acolyer.org/good'']\<rparr>))
   \<and> is_dir (path_join ''out'' [''.cached'']) ready_world
   \<and> \<not> path_exists (page_cache_path ''https://blog.acolyer.org/good'' ''out'') ready_world
   \<and> load_file_content example_lib ''https://blog.acolyer.org/good''
         (page_cache_path ''https://blog.acolyer.org/good'' ''out'') ready_world
       = (Inr ''body'',
          store_file (page_cache_path ''https://blog.acolyer.org/good'' ''out'') ''body''
            (ready_world\<lparr>requests := [''https://blog.acolyer.org/good'']\<rparr>))
   \<and> download_image example_lib ''http://a.test/img/b.png'' ''out''
         (snd (download_image example_lib ''http://a.test/img/b.png'' ''out'' ready_world))
       = download_image example_lib ''http://a.test/img/b.png'' ''out'' ready_world"
proof -
  let ?w = "store_file ''out/.cached/x.html'' ''<html>'' ready_world"
  note inst = cache_hit_skips_network [where L = example_lib and p = "''out/.cached/x.html''"
      and url = "''https://blog.acolyer.org/good''" and root = "''out''"]
  have h1: "files ?w ''out/.cached/x.html'' = Some ''<html>''"
    by (simp add: store_file_def)
  have h2: "CHR 0x0D \<notin> set ''<html>''"
    by simp
  have c1: "load_file_content example_lib ''https://blog.acolyer.org/good'' ''out/.cached/x.html'' ?w
              = (Inr ''<html>'', ?w)"
    using inst [where w = ?w and c = "''<html>''"] h1 h2 by blast
  have h3: "\<not> path_exists ''out/.cached/x.html'' ready_world"
    by (simp add: path_exists_def is_file_def is_dir_def all_slashes_def rstrip_slash_def
        ready_world_def)
  have g3: "http_get example_lib ''https://blog.acolyer.org/good'' = (200, ''body'')"
    by (simp add: example_lib_def)
  have o3: "open_error ''out/.cached/x.html'' ready_world = None"
    by (simp add: open_error_def parent_error_def posix_split_def rfind_def path_exists_def
        is_file_def is_dir_def all_slashes_def rstrip_slash_def ready_world_def Let_def)
  have r: "requests ready_world = []"
    by (simp add: ready_world_def)
  have "load_file_content example_lib ''https://blog.acolyer.org/good'' ''out/.cached/x.html'' ready_world
       = (case open_error ''out/.cached/x.html'' ready_world of
             Some e \<Rightarrow> (Inl e, ready_world\<lparr>requests := requests ready_world @ [''https://blog.acolyer.org/good'']\<rparr>)
           | None \<Rightarrow> (Inr ''body'', store_file ''out/.cached/x.html'' ''body''
               (ready_world\<lparr>requests := requests ready_world @ [''https://blog.acolyer.org/good'']\<rparr>)))"
    using inst [where w = ready_world and body = "''body''"] h3 g3 by blast
  then have c3: "load_file_content example_lib ''https://blog.acolyer.org/good'' ''out/.cached/x.html'' ready_world
       = (Inr ''body'',
          store_file ''out/.cached/x.html'' ''body''
            (ready_world\<lparr>requests := [''https://blog.acolyer.org/good'']\<rparr>))"
    by (simp add: o3 r)
  have h4: "is_dir (path_join ''out'' [''.cached'']) ready_world"
    by (simp add: example_paths ready_world_dirs)
  have h5: "\<not> path_exists (page_cache_path ''https://blog.acolyer.org/good'' ''out'') ready_world"
    using ready_world_no_page [of "''https://blog.acolyer.org/good''"]
    by (simp add: example_paths)
  have "load_file_content example_lib ''https://blog.acolyer.org/good''
         (page_cache_path ''https://blog.acolyer.org/good'' ''out'') ready_world
       = (Inr ''body'',
          store_file (page_cache_path ''https://blog.acolyer.org/good'' ''out'') ''body''
            (ready_world\<lparr>requests := requests ready_world @ [''https://blog.acolyer.org/good'']\<rparr>))"
    using inst [where w = ready_world and body = "''body''"] h4 h5 g3 by blast
  then have c4: "load_file_content example_lib ''https://blog.acolyer.org/good''
         (page_cache_path ''https://blog.acolyer.org/good'' ''out'') ready_world
       = (Inr ''body'',
          store_file (page_cache_path ''https://blog.acolyer.org/good'' ''out'') ''body''
            (ready_world\<lparr>requests := [''https://blog.acolyer.org/good'']\<rparr>))"
    by (simp add: r)
  have c6: "download_image example_lib ''http://a.test/img/b.png'' ''out''
         (snd (download_image example_lib ''http://a.test/img/b.png'' ''out'' ready_world))
       = download_image example_lib ''http://a.test/img/b.png'' ''out'' ready_world"
    using cache_hit_skips_network [where L = example_lib and url = "''http://a.test/img/b.png''"
        and root = "''out''" and w = ready_world
        and n = "sha256_hexdigest ''http://a.test/img/b.png'' @ ''.png''"
        and w' = "snd (download_image example_lib ''http://a.test/img/b.png'' ''out'' ready_world)"]
      example_image_download
    by simp
  show ?thesis
    using h1 h2 c1 h3 g3 o3 c3 h4 h5 c4 c6 by blast
qed

theorem cached_page_not_verbatim:
  "files (store_file ''out/.cached/x.html'' [CHR ''a'', CHR 0x0D, CHR 0x0A, CHR ''b''] ready_world)
      ''out/.cached/x.html'' = Some [CHR ''a'', CHR 0x0D, CHR 0x0A, CHR ''b'']
   \<and> fst (load_file_content example_lib ''https://blog.acolyer.org/good'' ''out/.cached/x.html''
         (store_file ''out/.cached/x.html'' [CHR ''a'', CHR 0x0D, CHR 0x0A, CHR ''b''] ready_world))
       = Inr [CHR ''a'', CHR 0x0A, CHR ''b'']
   \<and> \<not> path_exists ''out/.cached/x.html'' empty_world
   \<and> http_get example_lib ''https://blog.acolyer.org/good'' = (200, ''body'')
   \<and> load_file_content example_lib ''https://blog.acolyer.org/good'' ''out/.cached/x.html'' empty_world
       = (Inl FileNotFoundError, empty_world\<lparr>requests := [''https://blog.acolyer.org/good'']\<rparr>)"
  by (simp add: load_file_content_def store_file_def path_exists_def is_file_def is_dir_def
      all_slashes_def rstrip_slash_def universal_newlines_def send_get_def write_file_def
      open_error_def parent_error_def posix_split_def rfind_def Let_def
      ready_world_def empty_world_def example_lib_def)

text \<open>
  Claim C10. An image element without \<open>alt\<close> raises a key error for \<open>alt\<close>; one with
  \<open>alt\<close> but without \<open>src\<close> raises a key error for \<open>src\<close>; with both and without
  \<open>width\<close>, \<open>height\<close> and \<open>srcset\<close> the fields are the element's \<open>alt\<close>, two empty strings
  and its \<open>src\<close>; and every replacement the pass produces has the form
  \<open>image:<name>[<alt>,<width>,<height>]\<close> with the element's own \<open>alt\<close>.
\<close>

theorem transform_img_alt_src_mandatory:
  "(map_of a ''alt'' = None \<longrightarrow>
      replace_imgs L cfg (Tag ''img'' a cs) w = (Inl (KeyError ''alt''), w))
   \<and> (map_of a ''alt'' \<noteq> None \<and> map_of a ''src'' = None \<longrightarrow>
      replace_imgs L cfg (Tag ''img'' a cs) w = (Inl (KeyError ''src''), w))
   \<and> (map_of a ''alt'' = Some alt \<and> map_of a ''src'' = Some src \<and> map_of a ''width'' = None
        \<and> map_of a ''height'' = None \<and> map_of a ''srcset'' = None \<longrightarrow>
      img_fields a = Inr (alt, [], [], src))
   \<and> (fst (replace_imgs L cfg (Tag ''img'' a cs) w) = Inr t \<longrightarrow>
      (\<exists>alt image_name width height.
          map_of a ''alt'' = Some alt
        \<and> t = Text (''image:'' @ image_name @ ''['' @ alt @ '','' @ width @ '','' @ height @ '']'')))"
proof -
  have none: "img_fields a = Inl (KeyError ''alt'')" if "map_of a ''alt'' = None"
    using that by (simp add: img_fields_def)
  have nosrc: "img_fields a = Inl (KeyError ''src'')"
    if "map_of a ''alt'' \<noteq> None" "map_of a ''src'' = None"
    using that by (auto simp: img_fields_def Let_def)
  have plain: "img_fields a = Inr (alt, [], [], src)"
    if "map_of a ''alt'' = Some alt" "map_of a ''src'' = Some src" "map_of a ''width'' = None"
      "map_of a ''height'' = None" "map_of a ''srcset'' = None"
    using that by (simp add: img_fields_def)
  have fields_alt: "map_of a ''alt'' = Some x"
    if "img_fields a = Inr (x, wd, ht, s)" for x wd ht s
    using that
    by (auto simp: img_fields_def Let_def split: option.splits sum.splits list.splits)
  have shape: "\<exists>alt image_name width height.
          map_of a ''alt'' = Some alt
        \<and> t = Text (''image:'' @ image_name @ ''['' @ alt @ '','' @ width @ '','' @ height @ '']'')"
    if "fst (replace_imgs L cfg (Tag ''img'' a cs) w) = Inr t"
    using that fields_alt
    by (auto simp: replace_img_def split: sum.splits prod.splits)
  show ?thesis
    using none nosrc plain shape by (simp add: replace_img_def)
qed

lemma example_replace_img:
  "fst (replace_imgs example_lib example_config
          (Tag ''img'' [(''alt'', ''pic''), (''src'', ''http://a.test/img/b.png'')] []) ready_world)
     = Inr (Text (''image:'' @ (sha256_hexdigest ''http://a.test/img/b.png'' @ ''.png'')
                  @ ''['' @ ''pic'' @ '','' @ [] @ '','' @ [] @ '']''))"
proof -
  have u: "urljoin example_lib (src_url example_config) ''http://a.test/img/b.png''
             = ''http://a.test/img/b.png''"
    by (simp add: example_lib_def)
  have o: "output_dir example_config = ''out''"
    by (simp add: example_config_def)
  have f: "img_fields [(''alt'', ''pic''), (''src'', ''http://a.test/img/b.png'')]
             = Inr (''pic'', [], [], ''http://a.test/img/b.png'')"
    by (simp add: img_fields_def)
  show ?thesis
    by (simp add: replace_img_def f u o example_image_download)
qed

theorem transform_img_alt_src_mandatory_witness:
  "map_of ([] :: (string \<times> string) list) ''alt'' = None
   \<and> replace_imgs example_lib example_config (Tag ''img'' [] []) ready_world
       = (Inl (KeyError ''alt''), ready_world)
   \<and> map_of [(''alt'', ''pic'')] ''src'' = None
   \<and> replace_imgs example_lib example_config (Tag ''img'' [(''alt'', ''pic'')] []) ready_world
       = (Inl (KeyError ''src''), ready_world)
   \<and> img_fields [(''alt'', ''pic''), (''src'', ''b.png'')] = Inr (''pic'', [], [], ''b.png'')
   \<and> (\<exists>image_name width height.
         fst (replace_imgs example_lib example_config
                (Tag ''img'' [(''alt'', ''pic''), (''src'', ''http://a.test/img/b.png'')] []) ready_world)
         = Inr (Text (''image:'' @ image_name @ ''['' @ ''pic'' @ '','' @ width @ '','' @ height @ '']'')))"
proof -
  note inst = transform_img_alt_src_mandatory [where L = example_lib and cfg = example_config
      and w = ready_world and cs = "[]"]
  have c1: "replace_imgs example_lib example_config (Tag ''img'' [] []) ready_world
       = (Inl (KeyError ''alt''), ready_world)"
    using inst [where a = "[]"] by simp
  have c2: "replace_imgs example_lib example_config (Tag ''img'' [(''alt'', ''pic'')] []) ready_world
       = (Inl (KeyError ''src''), ready_world)"
    using inst [where a = "[(''alt'', ''pic'')]"] by simp
  have c3: "img_fields [(''alt'', ''pic''), (''src'', ''b.png'')] = Inr (''pic'', [], [], ''b.png'')"
    using inst [where a = "[(''alt'', ''pic''), (''src'', ''b.png'')]" and alt = "''pic''"
        and src = "''b.png''"] by simp
  have "\<exists>alt image_name width height.
          map_of [(''alt'', ''pic''), (''src'', ''http://a.test/img/b.png'')] ''alt'' = Some alt
        \<and> Text (''image:'' @ (sha256_hexdigest ''http://a.test/img/b.png'' @ ''.png'')
                  @ ''['' @ ''pic'' @ '','' @ [] @ '','' @ [] @ '']'')
            = Text (''image:'' @ image_name @ ''['' @ alt @ '','' @ width @ '','' @ height @ '']'')"
    using inst [where a = "[(''alt'', ''pic''), (''src'', ''http://a.test/img/b.png'')]"
        and t = "Text (''image:'' @ (sha256_hexdigest ''http://a.test/img/b.png'' @ ''.png'')
                  @ ''['' @ ''pic'' @ '','' @ [] @ '','' @ [] @ '']'')"]
      example_replace_img
    by blast
  then have c4: "\<exists>image_name width height.
         fst (replace_imgs example_lib example_config
                (Tag ''img'' [(''alt'', ''pic''), (''src'', ''http://a.test/img/b.png'')] []) ready_world)
         = Inr (Text (''image:'' @ image_name @ ''['' @ ''pic'' @ '','' @ width @ '','' @ height @ '']''))"
    unfolding example_replace_img by fastforce
  show ?thesis
    using c1 c2 c3 c4 by simp
qed

section \<open>A failed fetch ends the run\<close>

lemma fatal_policy_I:
  assumes "requests w' = requests w @ rs"
    and "\<And>x. r = Inr x \<Longrightarrow> list_all (fetch_ok L) rs"
    and "\<And>e. r = Inl e \<Longrightarrow> list_all (fetch_ok L) (butlast rs)"
    and "\<And>e. r = Inl e \<Longrightarrow> rs \<noteq> [] \<Longrightarrow> \<not> fetch_ok L (last rs) \<Longrightarrow>
           e = SystemExit 1 \<and> stdout w' \<noteq> [] \<and> last (stdout w') = fetch_message L (last rs)"
  shows "fatal_policy L w (r, w')"
  using assms by (cases r) (auto simp: fatal_policy_def Let_def)

lemma fatal_policy_D:
  assumes "fatal_policy L w (r, w')"
  obtains rs where "requests w' = requests w @ rs"
    and "\<And>x. r = Inr x \<Longrightarrow> list_all (fetch_ok L) rs"
    and "\<And>e. r = Inl e \<Longrightarrow> list_all (fetch_ok L) (butlast rs)"
    and "\<And>e. r = Inl e \<Longrightarrow> rs \<noteq> [] \<Longrightarrow> \<not> fetch_ok L (last rs) \<Longrightarrow>
           e = SystemExit 1 \<and> stdout w' \<noteq> [] \<and> last (stdout w') = fetch_message L (last rs)"
  using assms by (cases r) (auto simp: fatal_policy_def Let_def split: if_splits)

lemma fatal_policy_quiet: "requests w' = requests w \<Longrightarrow> fatal_policy L w (r, w')"
  by (rule fatal_policy_I [where rs = "[]"]) simp_all

lemma fatal_policy_seq:
  assumes 1: "fatal_policy L w (Inr x, w1)" and 2: "fatal_policy L w1 (r, w2)"
  shows "fatal_policy L w (r, w2)"
proof -
  from 1 obtain rs1 where a: "requests w1 = requests w @ rs1" and ok1: "list_all (fetch_ok L) rs1"
    by (rule fatal_policy_D) blast
  from 2 obtain rs2 where b: "requests w2 = requests w1 @ rs2"
    and ok2: "\<And>x. r = Inr x \<Longrightarrow> list_all (fetch_ok L) rs2"
    and bl2: "\<And>e. r = Inl e \<Longrightarrow> list_all (fetch_ok L) (butlast rs2)"
    and f2: "\<And>e. r = Inl e \<Longrightarrow> rs2 \<noteq> [] \<Longrightarrow> \<not> fetch_ok L (last rs2) \<Longrightarrow>
           e = SystemExit 1 \<and> stdout w2 \<noteq> [] \<and> last (stdout w2) = fetch_message L (last rs2)"
    by (rule fatal_policy_D) blast
  show ?thesis
  proof (rule fatal_policy_I [where rs = "rs1 @ rs2"])
    show "requests w2 = requests w @ rs1 @ rs2" using a b by simp
  next
    fix y assume "r = Inr y"
    with ok1 ok2 show "list_all (fetch_ok L) (rs1 @ rs2)" by simp
  next
    fix e assume "r = Inl e"
    with ok1 bl2 show "list_all (fetch_ok L) (butlast (rs1 @ rs2))"
      by (cases "rs2 = []") (auto simp: butlast_append list_all_iff dest: in_set_butlastD)
  next
    fix e assume e: "r = Inl e" and ne: "rs1 @ rs2 \<noteq> []" and bad: "\<not> fetch_ok L (last (rs1 @ rs2))"
    have "rs2 \<noteq> []"
    proof
      assume "rs2 = []"
      with ne bad ok1 show False by (simp add: list_all_iff)
    qed
    with f2 [OF e] bad
    show "e = SystemExit 1 \<and> stdout w2 \<noteq> [] \<and> last (stdout w2) = fetch_message L (last (rs1 @ rs2))"
      by simp
  qed
qed

lemma fatal_policy_then:
  assumes "fatal_policy L w (Inr x, w1)" and "requests w2 = requests w1"
  shows "fatal_policy L w (r, w2)"
  using fatal_policy_seq [OF assms(1) fatal_policy_quiet [OF assms(2)]] .












lemma fatal_policy_pure:
  assumes "\<And>x. p = Inr x \<Longrightarrow> fatal_policy L w (g x)"
  shows "fatal_policy L w (case p of Inl e \<Rightarrow> (Inl e, w) | Inr x \<Rightarrow> g x)"
  using assms by (cases p) (simp_all add: fatal_policy_quiet)







lemma append_file_requests [simp]: "requests (append_file p t w) = requests w"
  by (simp add: append_file_def)

lemma store_file_requests [simp]: "requests (store_file p t w) = requests w"
  by (simp add: store_file_def)

lemma print_line_requests [simp]: "requests (print_line s w) = requests w"
  by (simp add: print_line_def)





section \<open>What a run leaves in place\<close>

lemma path_join_last:
  assumes "b \<noteq> []" and "hd b \<noteq> CHR ''/''"
  shows "path_join a [b] \<noteq> [] \<and> last (path_join a [b]) = last b"
  using assms by (simp add: path_join_def path_join2_def)

lemma page_cache_path_shaped: "cache_shaped (page_cache_path url root)"
  unfolding page_cache_path_def path_join_cached cache_shaped_def by simp

lemma article_path_not_shaped: "\<not> cache_shaped (article_path L url root)"
  unfolding article_path_def cache_shaped_def
  using path_join_last [of "''index.asciidoc''" "article_dir L url root"] by simp

lemma index_path_not_shaped: "\<not> cache_shaped (path_join root [''index.asciidoc''])"
  unfolding cache_shaped_def using path_join_last [of "''index.asciidoc''" root] by simp

lemma makefile_path_not_shaped: "\<not> cache_shaped (path_join root [''Makefile''])"
  unfolding cache_shaped_def using path_join_last [of "''Makefile''" root] by simp

lemma grows_refl: "grows w w"
  by (simp add: grows_def)

lemma grows_trans:
  assumes "grows a b" and "grows b c"
  shows "grows a c"
proof -
  from assms have p: "prefix (requests a) (requests b)" "prefix (requests b) (requests c)"
    by (simp_all add: grows_def)
  have eq: "requests b = requests a \<and> requests c = requests b" if "requests c = requests a"
    using p that by (metis prefix_order.antisym)
  from assms have "dom (files a) \<subseteq> dom (files c)" and "dirs a \<subseteq> dirs c"
    by (auto simp: grows_def)
  moreover from assms have "\<forall>d. d \<in> dirs c \<and> d \<in> dom (files a) \<longrightarrow> d \<in> dirs a"
    unfolding grows_def by blast
  moreover from p have "prefix (requests a) (requests c)"
    by (rule prefix_order.trans)
  moreover have "requests c = requests a \<longrightarrow> (\<forall>p. cache_shaped p \<longrightarrow> files c p = files a p)"
    using assms eq unfolding grows_def by metis
  ultimately show ?thesis
    unfolding grows_def by blast
qed

lemma grows_same_files:
  "files w' = files w \<Longrightarrow> dirs w' = dirs w \<Longrightarrow> prefix (requests w) (requests w') \<Longrightarrow> grows w w'"
  by (simp add: grows_def)

lemma grows_fetch:
  "requests w' = requests w @ [url] \<Longrightarrow> dirs w' = dirs w \<Longrightarrow> dom (files w) \<subseteq> dom (files w')
     \<Longrightarrow> grows w w'"
  by (simp add: grows_def)

lemma grows_store: "\<not> cache_shaped p \<Longrightarrow> grows w (store_file p t w)"
  by (auto simp: grows_def store_file_def)

lemma grows_append: "\<not> cache_shaped p \<Longrightarrow> grows w (append_file p t w)"
  by (auto simp: grows_def append_file_def)

lemma grows_print: "grows w (print_line s w)"
  by (simp add: grows_def print_line_def)

lemma grows_makedirs: "grows w (snd (makedirs d w))"
  using makedirs_frame [of d w "fst (makedirs d w)" "snd (makedirs d w)"]
  by (simp add: grows_def)

lemma grows_write_file: "\<not> cache_shaped p \<Longrightarrow> grows w (snd (write_file p t w))"
  by (simp add: write_file_def grows_store grows_refl split: option.splits)

lemma grows_load: "grows w (snd (load_file_content L url p w))"
proof (cases "path_exists p w")
  case True
  then show ?thesis
    by (simp add: load_file_content_def grows_refl split: option.splits)
next
  case False
  show ?thesis
  proof (cases "fst (http_get L url) = 200")
    case True
    with False show ?thesis
      by (auto simp: load_miss_write store_file_def split: option.splits intro!: grows_fetch)
  next
    case bad: False
    with False show ?thesis
      by (auto simp: load_miss_fail print_line_def intro!: grows_fetch)
  qed
qed

lemma grows_download_image: "grows w (snd (download_image L url root w))"
proof -
  obtain r w1 where m: "makedirs (path_join root [''.cached'']) w = (r, w1)"
    by (cases "makedirs (path_join root [''.cached'']) w")
  from grows_makedirs [of w "path_join root [''.cached'']"] m have g: "grows w w1" by simp
  from makedirs_frame [OF m] have q: "requests w1 = requests w" by simp
  have "grows w1 (snd (download_image L url root w))"
    unfolding download_image_after_makedirs [OF m, of L url]
    by (cases r)
      (auto simp: Let_def grows_refl store_file_def print_line_def q split: option.splits
        intro!: grows_fetch)
  with g show ?thesis by (rule grows_trans)
qed

lemma grows_bind:
  assumes "grows w (snd res)"
    and "\<And>x w1. res = (Inr x, w1) \<Longrightarrow> grows w1 (snd (g x w1))"
  shows "grows w (snd (case res of (Inl e, w') \<Rightarrow> (Inl e, w') | (Inr x, w') \<Rightarrow> g x w'))"
proof (cases res)
  case (Pair r w1)
  show ?thesis
  proof (cases r)
    case (Inl e)
    with Pair assms(1) show ?thesis by simp
  next
    case (Inr x)
    with Pair assms have "grows w w1" and "grows w1 (snd (g x w1))" by simp_all
    then have "grows w (snd (g x w1))" by (rule grows_trans)
    with Pair Inr show ?thesis by simp
  qed
qed

lemma grows_return: "grows w (snd (r, w))"
  by (simp add: grows_refl)

lemma grows_replace_img: "grows w (snd (replace_img L cfg a w))"
proof -
  have "grows w (snd
     (case download_image L u root w of
        (Inl e, w') \<Rightarrow> (Inl e, w')
      | (Inr image_name, w') \<Rightarrow> (Inr (Text (k image_name)), w')))" for u root k
    by (rule grows_bind [OF grows_download_image]) (rule grows_return)
  then show ?thesis
    unfolding replace_img_def
    by (auto split: sum.splits prod.splits simp: grows_refl)
qed

lemma grows_replace_imgs:
  "grows w (snd (replace_imgs L cfg t w))"
  "grows w (snd (replace_imgs_list L cfg ts w))"
proof (induction L cfg t w and L cfg ts w rule: replace_imgs_replace_imgs_list.induct)
  case (1 L cfg s w)
  show ?case by (simp add: grows_refl)
next
  case (2 L cfg n a cs w)
  show ?case
  proof (cases "n = ''img''")
    case True
    have "grows w (snd
       (case replace_img L cfg a w of
          (Inl e, w') \<Rightarrow> (Inl e, w')
        | (Inr repl, w') \<Rightarrow>
            (case replace_imgs_list L cfg cs w' of
               (Inl e, w'') \<Rightarrow> (Inl e, w'')
             | (Inr _, w'') \<Rightarrow> (Inr repl, w''))))"
    proof (rule grows_bind [OF grows_replace_img])
      fix repl w1
      assume r: "replace_img L cfg a w = (Inr repl, w1)"
      show "grows w1 (snd
         (case replace_imgs_list L cfg cs w1 of
            (Inl e, w'') \<Rightarrow> (Inl e, w'')
          | (Inr _, w'') \<Rightarrow> (Inr repl, w'')))"
        by (rule grows_bind [OF "2.IH"(1) [OF True r [symmetric] refl]])
          (rule grows_return)
    qed
    with True show ?thesis by simp
  next
    case False
    have "grows w (snd
       (case replace_imgs_list L cfg cs w of
          (Inl e, w') \<Rightarrow> (Inl e, w')
        | (Inr cs', w') \<Rightarrow> (Inr (Tag n a cs'), w')))"
      by (rule grows_bind [OF "2.IH"(2) [OF False]]) (rule grows_return)
    with False show ?thesis by simp
  qed
next
  case (3 L cfg w)
  show ?case by (simp add: grows_refl)
next
  case (4 L cfg t ts w)
  have "grows w (snd
     (case replace_imgs L cfg t w of
        (Inl e, w') \<Rightarrow> (Inl e, w')
      | (Inr t', w') \<Rightarrow>
          (case replace_imgs_list L cfg ts w' of
             (Inl e, w'') \<Rightarrow> (Inl e, w'')
           | (Inr ts', w'') \<Rightarrow> (Inr (t' # ts'), w''))))"
  proof (rule grows_bind [OF "4.IH"(1)])
    fix t' w1
    assume r: "replace_imgs L cfg t w = (Inr t', w1)"
    show "grows w1 (snd
       (case replace_imgs_list L cfg ts w1 of
          (Inl e, w'') \<Rightarrow> (Inl e, w'')
        | (Inr ts', w'') \<Rightarrow> (Inr (t' # ts'), w'')))"
      by (rule grows_bind [OF "4.IH"(2) [OF r [symmetric] refl]])
        (rule grows_return)
  qed
  then show ?case by simp
qed

lemma grows_transform_img: "grows w (snd (transform_img L cfg site w))"
proof (cases site)
  case (Text s)
  then show ?thesis by (simp add: transform_img_def grows_refl)
next
  case (Tag n a cs)
  have "grows w (snd
     (case replace_imgs_list L cfg cs w of
        (Inl e, w') \<Rightarrow> (Inl e, w')
      | (Inr cs', w') \<Rightarrow> (Inr (Tag n a cs'), w')))"
    by (rule grows_bind [OF grows_replace_imgs(2)]) (rule grows_return)
  with Tag show ?thesis by (simp add: transform_img_def)
qed

lemma grows_transform: "grows w (snd (transform L T cfg site w))"
proof (cases site)
  case None
  then show ?thesis by (simp add: transform_def grows_refl)
next
  case (Some s0)
  have "grows w (snd
     (case transform_img L cfg (transform_italic (transform_strong s0)) w of
        (Inl e, w') \<Rightarrow> (Inl e, w')
      | (Inr s1, w') \<Rightarrow>
          (case transform_a s1 of
             Inl e \<Rightarrow> (Inl e, w')
           | Inr s2 \<Rightarrow>
               (case T of
                  Transformer \<Rightarrow> (Inr s2, w')
                | UntoolsTransformer \<Rightarrow>
                    (case transform_sources s2 of
                       Inl e \<Rightarrow> (Inl e, w')
                     | Inr s3 \<Rightarrow> (Inr s3, w'))))))"
    by (rule grows_bind [OF grows_transform_img])
      (auto split: sum.splits transformer.splits simp: grows_refl)
  with Some show ?thesis by (simp add: transform_def)
qed

lemma grows_stdout: "grows w (w\<lparr>stdout := s\<rparr>)"
  by (simp add: grows_def)

lemma grows_write_article:
  assumes ns: "\<not> cache_shaped out"
  shows "grows w (snd (write_article L url root out bs w))"
proof -
  have tail: "grows w2 (snd
     (case transform L T cfg content w2 of
        (Inl e, w3) \<Rightarrow> (Inl e, w3)
      | (Inr content', w3) \<Rightarrow>
          (case render_tags L R (contents content') of
             (out', diag) \<Rightarrow> (Inr (), append_file out out' (w3\<lparr>stdout := stdout w3 @ diag\<rparr>)))))"
    for w2 T cfg content R
  proof (rule grows_bind [OF grows_transform])
    fix x w1
    show "grows w1 (snd (case render_tags L R (contents x) of
             (out', diag) \<Rightarrow> (Inr (), append_file out out' (w1\<lparr>stdout := stdout w1 @ diag\<rparr>))))"
      using grows_trans [OF grows_stdout grows_append [OF ns]]
      by (simp split: prod.splits)
  qed
  have a2: "grows w (append_file out s2 (append_file out s1 w))" for s1 s2
    by (rule grows_trans [OF grows_append [OF ns] grows_append [OF ns]])
  show ?thesis
    unfolding write_article_def Let_def
    by (auto split: sum.splits simp: grows_refl grows_append [OF ns] a2
        intro: grows_trans [OF a2 tail])
qed

lemma grows_download_content: "grows w (snd (download_content L url root w))"
proof -
  let ?out = "article_path L url root"
  have body: "grows w0 (snd
     (case load_file_content L url (page_cache_path url root) (print_line ?out w0) of
        (Inl e, w2) \<Rightarrow> (Inl e, w2)
      | (Inr content, w2) \<Rightarrow>
          (case write_file ?out [] w2 of
             (Inl e, w3) \<Rightarrow> (Inl e, w3)
           | (Inr _, w3) \<Rightarrow>
               (case write_article L url root ?out (parse_html L content) w3 of
                  (Inl e, w4) \<Rightarrow> (Inl e, w4)
                | (Inr _, w4) \<Rightarrow> (Inr ?out, w4)))))" for w0
  proof (rule grows_trans [OF grows_print [of w0 ?out]], rule grows_bind [OF grows_load])
    fix content w2
    show "grows w2 (snd
          (case write_file ?out [] w2 of
             (Inl e, w3) \<Rightarrow> (Inl e, w3)
           | (Inr _, w3) \<Rightarrow>
               (case write_article L url root ?out (parse_html L content) w3 of
                  (Inl e, w4) \<Rightarrow> (Inl e, w4)
                | (Inr _, w4) \<Rightarrow> (Inr ?out, w4))))"
    proof (rule grows_bind [OF grows_write_file [OF article_path_not_shaped]])
      fix u w3
      show "grows w3 (snd
               (case write_article L url root ?out (parse_html L content) w3 of
                  (Inl e, w4) \<Rightarrow> (Inl e, w4)
                | (Inr _, w4) \<Rightarrow> (Inr ?out, w4)))"
        by (rule grows_bind [OF grows_write_article [OF article_path_not_shaped]])
          (rule grows_return)
    qed
  qed
  have "grows w (snd
     (case makedirs (article_dir L url root) w of
        (Inl e, w0) \<Rightarrow> (Inl e, w0)
      | (Inr _, w0) \<Rightarrow>
         (case load_file_content L url (page_cache_path url root) (print_line ?out w0) of
            (Inl e, w2) \<Rightarrow> (Inl e, w2)
          | (Inr content, w2) \<Rightarrow>
              (case write_file ?out [] w2 of
                 (Inl e, w3) \<Rightarrow> (Inl e, w3)
               | (Inr _, w3) \<Rightarrow>
                   (case write_article L url root ?out (parse_html L content) w3 of
                      (Inl e, w4) \<Rightarrow> (Inl e, w4)
                    | (Inr _, w4) \<Rightarrow> (Inr ?out, w4))))))"
    by (rule grows_bind [OF grows_makedirs]) (rule body)
  then show ?thesis
    by (simp add: download_content_def Let_def)
qed

lemma grows_download_all: "grows w (snd (download_all L root paths fs w))"
proof (induction paths arbitrary: fs w)
  case Nil
  show ?case by (simp add: grows_refl)
next
  case (Cons u paths)
  have "grows w (snd
     (case download_content L u root w of
        (Inl e, w') \<Rightarrow> (Inl e, w')
      | (Inr output_path, w') \<Rightarrow>
          download_all L root paths (fs @ [re_sub_root L root output_path]) w'))"
    by (rule grows_bind [OF grows_download_content]) (rule Cons.IH)
  then show ?case by simp
qed

lemma grows_main: "grows w (snd (main L c w))"
proof -
  let ?root = "cfg_output_dir c"
  have "grows w (snd
     (case makedirs (path_join ?root [''.cached'']) w of
           (Inl e, w1) \<Rightarrow> (Inl e, w1)
         | (Inr _, w1) \<Rightarrow>
             (case makedirs (path_join ?root [''images'']) w1 of
                (Inl e, w2) \<Rightarrow> (Inl e, w2)
              | (Inr _, w2) \<Rightarrow>
                  (case generate_makefile ?root w2 of
                     (Inl e, w3) \<Rightarrow> (Inl e, w3)
                   | (Inr _, w3) \<Rightarrow>
                       (case download_all L ?root (urls c) [] w3 of
                          (Inl e, w4) \<Rightarrow> (Inl e, w4)
                        | (Inr fs, w4) \<Rightarrow>
                            write_file (path_join ?root [''index.asciidoc''])
                              (index_content c fs) w4)))))"
  proof (rule grows_bind [OF grows_makedirs], rule grows_bind [OF grows_makedirs],
      rule grows_bind)
    fix w2
    show "grows w2 (snd (generate_makefile ?root w2))"
      unfolding generate_makefile_def by (rule grows_write_file [OF makefile_path_not_shaped])
  next
    fix w3
    show "grows w3 (snd
                       (case download_all L ?root (urls c) [] w3 of
                          (Inl e, w4) \<Rightarrow> (Inl e, w4)
                        | (Inr fs, w4) \<Rightarrow>
                            write_file (path_join ?root [''index.asciidoc''])
                              (index_content c fs) w4))"
      by (rule grows_bind [OF grows_download_all])
        (rule grows_write_file [OF index_path_not_shaped])
  qed
  then show ?thesis
    by (simp add: main_def Let_def)
qed










section \<open>A second run over a populated cache\<close>

text \<open>
  The first run goes through worlds \<open>a\<close> and ends in \<open>F\<close>; the second run starts in \<open>F\<close>
  and goes through worlds \<open>b\<close>. The second run finds every directory made already, so it
  makes none: \<open>dirs b = dirs F\<close> throughout.
\<close>

lemma covers_refl: "covers a a"
  by (simp add: covers_def)

lemma covers_same:
  assumes "covers a b" and "files a1 = files a" and "grows a1 F" and "dirs b = dirs F"
  shows "covers a1 b"
  using assms by (simp add: covers_def grows_def)

lemma covers_print: "covers a b \<Longrightarrow> covers (print_line s a) (print_line t b)"
  by (simp add: covers_def print_line_def)

lemma covers_store: "covers a b \<Longrightarrow> covers (store_file p t a) (store_file p t b)"
  by (auto simp: covers_def store_file_def)

lemma covers_append_file:
  assumes "covers a b" and "files a out = files b out"
  shows "covers (append_file out s a) (append_file out s b)
         \<and> files (append_file out s a) out = files (append_file out s b) out"
  using assms by (auto simp: covers_def append_file_def)

lemma covers_ext:
  assumes "covers a b" and "files a1 = files a ++ D" and "files b1 = files b ++ D"
    and "dirs a1 \<subseteq> dirs b1"
  shows "covers a1 b1"
proof -
  from assms(1) have d: "dom (files a) \<subseteq> dom (files b)"
    and c: "\<And>p. cache_shaped p \<Longrightarrow> files a p = files b p"
    by (simp_all add: covers_def)
  have "dom (files a1) \<subseteq> dom (files b1)"
    using d unfolding assms(2,3) dom_map_add by blast
  moreover have "files a1 p = files b1 p" if "cache_shaped p" for p
    using c [OF that] unfolding assms(2,3) by (simp add: map_add_def split: option.splits)
  ultimately show ?thesis
    using assms(4) by (simp add: covers_def)
qed

lemma grows_split:
  assumes "grows a m" and "grows m z" and "requests z = requests a"
  shows "requests m = requests a \<and> requests z = requests m"
proof -
  from assms have "prefix (requests a) (requests m)" "prefix (requests m) (requests a)"
    by (simp_all add: grows_def)
  then have "requests m = requests a" by (metis prefix_order.antisym)
  with assms(3) show ?thesis by simp
qed

lemma makedirs_again:
  assumes m: "makedirs d a = (Inr (), a1)" and cov: "covers a b" and fin: "grows a1 F"
    and db: "dirs b = dirs F"
  shows "makedirs d b = (Inr (), b) \<and> files a1 = files a \<and> requests a1 = requests a"
proof -
  from makedirs_frame [OF m] have f: "files a1 = files a" and q: "requests a1 = requests a"
    by simp_all
  have "dir_ready d b"
  proof (rule dir_ready_mono [OF makedirs_makes_ready [OF m]])
    show "dirs a1 \<subseteq> dirs b" using fin db by (simp add: grows_def)
    show "dom (files a1) \<subseteq> dom (files b)" using cov f by (simp add: covers_def)
  qed
  from makedirs_ready_noop [OF this] f q show ?thesis by simp
qed

lemma write_file_again:
  assumes r: "write_file p t a = (Inr (), a1)" and cov: "covers a b" and fin: "grows a1 F"
    and db: "dirs b = dirs F"
  shows "a1 = store_file p t a \<and> write_file p t b = (Inr (), store_file p t b)"
proof -
  from r have oe: "open_error p a = None" and a1: "a1 = store_file p t a"
    by (auto simp: write_file_def split: option.splits)
  from oe have ne: "p \<noteq> []" and l: "last p \<noteq> CHR ''/''" and nd: "\<not> is_dir p a"
    and pe: "parent_error p a = None"
    by (auto simp: open_error_def split: if_splits)
  from ne l have rs: "rstrip_slash p = p" by (rule rstrip_slash_id)
  from ne l have nas: "\<not> all_slashes p"
    by (cases p rule: rev_cases) (auto simp: all_slashes_def)
  have "\<not> is_dir p b"
  proof
    assume "is_dir p b"
    with nas rs db have "p \<in> dirs F" by (simp add: is_dir_def)
    moreover have "p \<in> dom (files a1)" by (simp add: a1 store_file_def)
    ultimately have "p \<in> dirs a1" using fin unfolding grows_def by blast
    then have "p \<in> dirs a" by (simp add: a1 store_file_def)
    with ne rs nd show False by (simp add: is_dir_def)
  qed
  moreover have "parent_error p b = None"
  proof -
    from pe have "fst (posix_split p) = [] \<or> is_dir (fst (posix_split p)) a"
      by (auto simp: parent_error_def Let_def split: if_splits)
    moreover from cov have "dirs a \<subseteq> dirs b" by (simp add: covers_def)
    ultimately have "fst (posix_split p) = [] \<or> is_dir (fst (posix_split p)) b"
      using is_dir_mono [of "fst (posix_split p)" a b] by blast
    then show ?thesis by (auto simp: parent_error_def Let_def)
  qed
  ultimately have "open_error p b = None"
    using ne l by (simp add: open_error_def)
  with a1 show ?thesis by (simp add: write_file_def)
qed

lemma load_file_content_sim:
  assumes r: "load_file_content L url p a = (Inr c, a1)" and q: "requests a1 = requests a"
    and cov: "covers a b" and p: "cache_shaped p"
  shows "a1 = a \<and> load_file_content L url p b = (Inr c, b)"
proof (cases "path_exists p a")
  case True
  with r obtain stored where f: "files a p = Some stored" and c: "c = universal_newlines stored"
    and a1: "a1 = a"
    by (auto simp: load_file_content_def split: option.splits)
  from f cov p have "files b p = Some stored"
    by (simp add: covers_def)
  from load_hit [OF this] a1 c show ?thesis by simp
next
  case False
  show ?thesis
  proof (cases "fst (http_get L url) = 200")
    case True
    with False r q show ?thesis
      by (auto simp: load_miss_write store_file_def split: option.splits)
  next
    case bad: False
    with False r show ?thesis by (simp add: load_miss_fail)
  qed
qed

lemma download_image_sim:
  assumes r: "download_image L url root a = (Inr n, a1)" and q: "requests a1 = requests a"
    and cov: "covers a b" and fin: "grows a1 F" and db: "dirs b = dirs F"
  shows "files a1 = files a \<and> download_image L url root b = (Inr n, b)"
proof -
  let ?c = "path_join root [''.cached'']"
  let ?n = "sha256_hexdigest url @ snd (splitext (urlparse_path L url))"
  let ?p = "path_join root [''images'', ?n]"
  obtain r0 a0 where m0: "makedirs ?c a = (r0, a0)" by (cases "makedirs ?c a")
  from r download_image_after_makedirs [OF m0, of L url] have r0: "r0 = Inr ()"
    by (cases r0) auto
  note m = m0 [unfolded r0]
  note d = download_image_after_makedirs [OF m, of L url]
  from makedirs_frame [OF m] have f0: "files a0 = files a" and q0: "requests a0 = requests a"
    by simp_all
  have ex: "path_exists ?p a0"
  proof (rule ccontr)
    assume "\<not> path_exists ?p a0"
    with r q d show False
      by (auto simp: Let_def store_file_def split: if_splits option.splits)
  qed
  with r d have a1: "a1 = a0" and n: "n = ?n"
    by (simp_all add: Let_def)
  from makedirs_again [OF m cov fin [unfolded a1] db] have mb: "makedirs ?c b = (Inr (), b)"
    by simp
  from fin db have "dirs a0 \<subseteq> dirs b"
    by (simp add: a1 grows_def)
  moreover from cov f0 have "dom (files a0) \<subseteq> dom (files b)"
    by (simp add: covers_def)
  ultimately have "path_exists ?p b"
    using path_exists_mono [OF ex] by blast
  with download_image_after_makedirs [OF mb, of L url] n a1 f0 show ?thesis
    by (simp add: Let_def)
qed

lemma replace_img_sim:
  assumes r: "replace_img L cfg at a = (Inr t, a1)" and q: "requests a1 = requests a"
    and cov: "covers a b" and fin: "grows a1 F" and db: "dirs b = dirs F"
  shows "files a1 = files a \<and> replace_img L cfg at b = (Inr t, b)"
proof -
  from r obtain alt width height src where f: "img_fields at = Inr (alt, width, height, src)"
    by (auto simp: replace_img_def split: sum.splits)
  from r f obtain n where d: "download_image L (urljoin L (src_url cfg) src) (output_dir cfg) a = (Inr n, a1)"
    and t: "t = Text (''image:'' @ n @ ''['' @ alt @ '','' @ width @ '','' @ height @ '']'')"
    by (auto simp: replace_img_def split: sum.splits prod.splits)
  from download_image_sim [OF d q cov fin db] f t show ?thesis
    by (simp add: replace_img_def)
qed

lemma replace_imgs_sim:
  "replace_imgs L cfg t a = (Inr t', a1) \<Longrightarrow> requests a1 = requests a \<Longrightarrow> covers a b \<Longrightarrow>
     grows a1 F \<Longrightarrow> dirs b = dirs F \<Longrightarrow>
     files a1 = files a \<and> replace_imgs L cfg t b = (Inr t', b)"
  "replace_imgs_list L cfg ts a = (Inr ts', a1) \<Longrightarrow> requests a1 = requests a \<Longrightarrow> covers a b \<Longrightarrow>
     grows a1 F \<Longrightarrow> dirs b = dirs F \<Longrightarrow>
     files a1 = files a \<and> replace_imgs_list L cfg ts b = (Inr ts', b)"
proof (induction L cfg t a and L cfg ts a arbitrary: t' a1 and ts' a1
    rule: replace_imgs_replace_imgs_list.induct)
  case (1 L cfg s w)
  then show ?case by auto
next
  case (2 L cfg n at cs w)
  show ?case
  proof (cases "n = ''img''")
    case True
    from "2.prems"(1) True obtain repl w1 xs where
      r1: "replace_img L cfg at w = (Inr repl, w1)"
      and r2: "replace_imgs_list L cfg cs w1 = (Inr xs, a1)" and t': "t' = repl"
      by (auto split: prod.splits sum.splits)
    have g1: "grows w w1" using grows_replace_img [of w L cfg at] r1 by simp
    have g2: "grows w1 a1" using grows_replace_imgs(2) [of w1 L cfg cs] r2 by simp
    from grows_split [OF g1 g2 "2.prems"(2)]
    have q1: "requests w1 = requests w" and q2: "requests a1 = requests w1"
      by simp_all
    have fin1: "grows w1 F" by (rule grows_trans [OF g2 "2.prems"(4)])
    from replace_img_sim [OF r1 q1 "2.prems"(3) fin1 "2.prems"(5)]
    have f1: "files w1 = files w" and b1: "replace_img L cfg at b = (Inr repl, b)"
      by simp_all
    have cov1: "covers w1 b"
      by (rule covers_same [OF "2.prems"(3) f1 fin1 "2.prems"(5)])
    from "2.IH"(1) [OF True r1 [symmetric] refl r2 q2 cov1 "2.prems"(4,5)]
    have "files a1 = files w1" and "replace_imgs_list L cfg cs b = (Inr xs, b)"
      by simp_all
    with f1 b1 True t' show ?thesis by simp
  next
    case False
    from "2.prems"(1) False obtain cs' where
      r: "replace_imgs_list L cfg cs w = (Inr cs', a1)" and t': "t' = Tag n at cs'"
      by (auto split: prod.splits sum.splits)
    from "2.IH"(2) [OF False r "2.prems"(2,3,4,5)] False t' show ?thesis
      by simp
  qed
next
  case (3 L cfg w)
  then show ?case by auto
next
  case (4 L cfg t ts w)
  from "4.prems"(1) obtain x w1 xs where
    r1: "replace_imgs L cfg t w = (Inr x, w1)"
    and r2: "replace_imgs_list L cfg ts w1 = (Inr xs, a1)" and ts': "ts' = x # xs"
    by (auto split: prod.splits sum.splits)
  have g1: "grows w w1" using grows_replace_imgs(1) [of w L cfg t] r1 by simp
  have g2: "grows w1 a1" using grows_replace_imgs(2) [of w1 L cfg ts] r2 by simp
  from grows_split [OF g1 g2 "4.prems"(2)]
  have q1: "requests w1 = requests w" and q2: "requests a1 = requests w1"
    by simp_all
  have fin1: "grows w1 F" by (rule grows_trans [OF g2 "4.prems"(4)])
  from "4.IH"(1) [OF r1 q1 "4.prems"(3) fin1 "4.prems"(5)]
  have f1: "files w1 = files w" and b1: "replace_imgs L cfg t b = (Inr x, b)"
    by simp_all
  have cov1: "covers w1 b"
    by (rule covers_same [OF "4.prems"(3) f1 fin1 "4.prems"(5)])
  from "4.IH"(2) [OF r1 [symmetric] refl r2 q2 cov1 "4.prems"(4,5)]
  have "files a1 = files w1" and "replace_imgs_list L cfg ts b = (Inr xs, b)"
    by simp_all
  with f1 b1 ts' show ?case by simp
qed

lemma transform_img_sim:
  assumes r: "transform_img L cfg site a = (Inr s', a1)" and q: "requests a1 = requests a"
    and cov: "covers a b" and fin: "grows a1 F" and db: "dirs b = dirs F"
  shows "files a1 = files a \<and> transform_img L cfg site b = (Inr s', b)"
proof (cases site)
  case (Text s)
  with r show ?thesis by (auto simp: transform_img_def)
next
  case (Tag n at cs)
  with r obtain cs' where l: "replace_imgs_list L cfg cs a = (Inr cs', a1)" and s': "s' = Tag n at cs'"
    by (auto simp: transform_img_def split: prod.splits sum.splits)
  from replace_imgs_sim(2) [OF l q cov fin db] Tag s' show ?thesis
    by (simp add: transform_img_def)
qed

lemma transform_sim:
  assumes r: "transform L T cfg site a = (Inr s', a1)" and q: "requests a1 = requests a"
    and cov: "covers a b" and fin: "grows a1 F" and db: "dirs b = dirs F"
  shows "files a1 = files a \<and> transform L T cfg site b = (Inr s', b)"
proof -
  from r obtain s0 where site: "site = Some s0"
    by (cases site) (auto simp: transform_def)
  from r site obtain s1 where
    i: "transform_img L cfg (transform_italic (transform_strong s0)) a = (Inr s1, a1)"
    by (auto simp: transform_def split: prod.splits sum.splits transformer.splits)
  from transform_img_sim [OF i q cov fin db]
  have f: "files a1 = files a"
    and b1: "transform_img L cfg (transform_italic (transform_strong s0)) b = (Inr s1, b)"
    by simp_all
  from r site i have "transform L T cfg site b = (Inr s', b)"
    by (auto simp: transform_def b1 split: sum.splits transformer.splits)
  with f show ?thesis by simp
qed

end
